theory Spec2Isabelle
  imports Complex_Main
begin

section \<open>1NB Analytics: a shallow embedding of \<^verbatim>\<open>analytics.js\<close>\<close>

text \<open>
  The script keeps three slots in the browser: the visitor identifier and the analytics
  document in \<^verbatim>\<open>localStorage\<close>, the session in \<^verbatim>\<open>sessionStorage\<close>.
  Every function of the script is modelled as a function on the state of these slots.
  Clock readings, random strings and the navigation context are inputs.

  Numbers are JavaScript numbers that hold counters and millisecond timestamps; they are
  modelled as \<^typ>\<open>int\<close> (integers below \<open>2^53\<close> are exact in a double).
  Objects used as dictionaries are maps of their own properties; the order of keys is not
  modelled. A read \<^verbatim>\<open>obj[k]\<close> that finds no own property finds the member that a plain
  object inherits under the name \<open>k\<close>, if there is one (\<open>proto_member\<close> below).

  The values are typed as the script writes them: a text that parses denotes a document of
  the shape below, in which only \<^verbatim>\<open>uniqueVisitors\<close> and the values of
  \<^verbatim>\<open>interactions\<close>, whose type the script inspects, can have several shapes. The
  exceptions of the model are those of the storage calls and of \<^verbatim>\<open>JSON.parse\<close>.
\<close>

subsection \<open>Storage\<close>

text \<open>
  The text held by a slot that the script reads with \<^verbatim>\<open>JSON.parse\<close>: the empty string,
  a text that \<^verbatim>\<open>JSON.parse\<close> rejects, or the JSON text of a value.
\<close>

datatype 'a json_text = Blank | Garbled | Encodes 'a

datatype error = QuotaExceededError | SyntaxError | TypeError

record session =
  session_id :: string
  start :: int
  lastActivity :: int
  pageviews :: int

subsection \<open>The analytics document\<close>

record score_record =
  score :: int
  max_score :: "int option"
  date :: string

text \<open>
  A value stored under a key of \<^verbatim>\<open>interactions\<close>: a counter, the list of score records,
  \<^verbatim>\<open>NaN\<close> (what \<^verbatim>\<open>++\<close> leaves on a non-empty list) or \<^verbatim>\<open>null\<close> (what JSON makes of
  \<^verbatim>\<open>NaN\<close>). A key that is absent is \<^verbatim>\<open>undefined\<close>.
\<close>

datatype ival = Count int | Scores "score_record list" | NaN | Null

text \<open>
  The value of \<^verbatim>\<open>uniqueVisitors\<close>: an array, a \<^verbatim>\<open>Set\<close> (its elements in insertion
  order) or anything else (missing, a number, a string, an object).
\<close>

datatype visitors = Arr "string list" | SetV "string list" | Malformed

record app_stats =
  firstSeen :: string
  totalViews :: int
  uniqueVisitors :: visitors
  dailyViews :: "string \<rightharpoonup> int"
  interactions :: "string \<rightharpoonup> ival"
  sources :: "string \<rightharpoonup> ival"
  avgTimeOnPage :: int
  totalTimeOnPage :: int
  completedSessions :: int
  shares :: int
  affiliateClicks :: int

record global_stats =
  g_totalViews :: int
  g_dailyViews :: "string \<rightharpoonup> int"
  g_uniqueVisitors :: "string list"

record document =
  apps :: "(string \<rightharpoonup> app_stats) option"
  global :: "global_stats option"

record browser =
  visitor_slot :: "string option"
  analytics_slot :: "document json_text option"
  session_slot :: "session option json_text option"
  local_quota_exceeded :: bool
  session_quota_exceeded :: bool

text \<open>What the script reads from the page and the clock when it is loaded.\<close>

record load_env =
  pathname :: string
  utm_source :: "string option"
  utm_medium :: "string option"
  utm_campaign :: "string option"
  referrer :: string
  now :: int
  load_time :: int
  today :: string
  rand_visitor :: string
  rand_session :: string

subsection \<open>Identity\<close>

text \<open>
  \<^verbatim>\<open>localStorage.setItem\<close> and \<^verbatim>\<open>sessionStorage.setItem\<close> throw when the browser
  refuses the write (the quota is exceeded).
\<close>

definition getVisitorId :: "string \<Rightarrow> browser \<Rightarrow> (error + string) \<times> browser" where
  "getVisitorId rnd b =
     (case visitor_slot b of
        Some (c # cs) \<Rightarrow> (Inr (c # cs), b)
      | _ \<Rightarrow>
          (let ident = ''v_'' @ rnd in
           if local_quota_exceeded b then (Inl QuotaExceededError, b)
           else (Inr ident, b\<lparr>visitor_slot := Some ident\<rparr>)))"

text \<open>\<^verbatim>\<open>JSON.parse(sessionStorage.getItem(SESSION_KEY) || 'null')\<close>\<close>

definition parse_session :: "session option json_text option \<Rightarrow> error + session option" where
  "parse_session slot =
     (case slot of
        None \<Rightarrow> Inr None
      | Some Blank \<Rightarrow> Inr None
      | Some Garbled \<Rightarrow> Inl SyntaxError
      | Some (Encodes v) \<Rightarrow> Inr v)"

definition getSession :: "int \<Rightarrow> string \<Rightarrow> browser \<Rightarrow> (error + session) \<times> browser" where
  "getSession nw rnd b =
     (case parse_session (session_slot b) of
        Inl e \<Rightarrow> (Inl e, b)
      | Inr stored \<Rightarrow>
          (let s0 = (case stored of
                       None \<Rightarrow>
                         \<lparr>session_id = ''s_'' @ rnd, start = nw, lastActivity = nw, pageviews = 0\<rparr>
                     | Some s \<Rightarrow>
                         if nw - lastActivity s > 30 * 60 * 1000
                         then \<lparr>session_id = ''s_'' @ rnd, start = nw, lastActivity = nw,
                               pageviews = 0\<rparr>
                         else s);
               s1 = s0\<lparr>lastActivity := nw\<rparr>;
               s2 = s1\<lparr>pageviews := pageviews s1 + 1\<rparr>
           in if session_quota_exceeded b then (Inl QuotaExceededError, b)
              else (Inr s2, b\<lparr>session_slot := Some (Encodes (Some s2))\<rparr>)))"

subsection \<open>Classification of the navigation context\<close>

text \<open>\<^verbatim>\<open>path.replace(/^\/|\/$/g, '')\<close>: one leading and one trailing slash are removed.\<close>

definition strip_slashes :: "string \<Rightarrow> string" where
  "strip_slashes path =
     (let p1 = (case path of [] \<Rightarrow> [] | c # cs \<Rightarrow> if c = CHR ''/'' then cs else c # cs)
      in if p1 \<noteq> [] \<and> last p1 = CHR ''/'' then butlast p1 else p1)"

definition getAppName :: "string \<Rightarrow> string" where
  "getAppName pth =
     (let path = strip_slashes pth
      in if path = [] \<or> path = ''index.html'' then ''_homepage''
         else takeWhile (\<lambda>c. c \<noteq> CHR ''/'') path)"

record utm =
  source :: string
  medium :: string
  campaign :: string

definition or_empty :: "string option \<Rightarrow> string" where
  "or_empty v = (case v of None \<Rightarrow> [] | Some s \<Rightarrow> s)"

definition getUtmParams :: "load_env \<Rightarrow> utm" where
  "getUtmParams env =
     \<lparr>source = or_empty (utm_source env),
      medium = or_empty (utm_medium env),
      campaign = or_empty (utm_campaign env)\<rparr>"

fun startsWith :: "string \<Rightarrow> string \<Rightarrow> bool" where
  "startsWith s [] = True"
| "startsWith [] (p # ps) = False"
| "startsWith (c # cs) (p # ps) = (c = p \<and> startsWith cs ps)"

text \<open>\<^verbatim>\<open>String.prototype.includes\<close>: the pattern occurs somewhere in the string.\<close>

fun str_includes :: "string \<Rightarrow> string \<Rightarrow> bool" where
  "str_includes [] pat = (pat = [])"
| "str_includes (c # cs) pat = (startsWith (c # cs) pat \<or> str_includes cs pat)"

definition getReferrerCategory :: "string \<Rightarrow> string" where
  "getReferrerCategory ref =
     (if ref = [] then ''direct''
      else if str_includes ref ''onenightbuild.com'' then ''internal''
      else if str_includes ref ''google.'' \<or> str_includes ref ''bing.'' \<or> str_includes ref ''duckduckgo.''
        then ''search''
      else if str_includes ref ''twitter.com'' \<or> str_includes ref ''x.com'' then ''twitter''
      else if str_includes ref ''reddit.com'' then ''reddit''
      else if str_includes ref ''facebook.com'' \<or> str_includes ref ''instagram.com'' then ''social''
      else if str_includes ref ''t.co'' then ''twitter''
      else ''referral'')"

subsection \<open>Sets and JSON\<close>

text \<open>
  A \<^verbatim>\<open>Set\<close> keeps its elements in insertion order; \<^verbatim>\<open>add\<close> of an element that is
  already there changes nothing. \<^verbatim>\<open>new Set(array)\<close> adds the elements of the array
  one after the other.
\<close>

definition set_add :: "string list \<Rightarrow> string \<Rightarrow> string list" where
  "set_add xs v = (if v \<in> set xs then xs else xs @ [v])"

definition new_Set :: "string list \<Rightarrow> string list" where
  "new_Set arr = foldl set_add [] arr"

text \<open>\<^verbatim>\<open>JSON.stringify\<close> writes \<^verbatim>\<open>NaN\<close> as \<^verbatim>\<open>null\<close>.\<close>

fun ival_json :: "ival \<Rightarrow> ival" where
  "ival_json NaN = Null"
| "ival_json v = v"

text \<open>
  What \<^verbatim>\<open>JSON.parse(JSON.stringify(data, replacer))\<close> makes of an app entry. With the
  replacer of \<^verbatim>\<open>prepareForSave\<close> a \<^verbatim>\<open>Set\<close> becomes the array of its elements; without
  a replacer a \<^verbatim>\<open>Set\<close> becomes the empty object.
\<close>

definition json_visitors :: "bool \<Rightarrow> visitors \<Rightarrow> visitors" where
  "json_visitors replacer v =
     (case v of SetV xs \<Rightarrow> (if replacer then Arr xs else Malformed) | _ \<Rightarrow> v)"

definition json_app :: "bool \<Rightarrow> app_stats \<Rightarrow> app_stats" where
  "json_app replacer a =
     a\<lparr>uniqueVisitors := json_visitors replacer (uniqueVisitors a),
       interactions := (\<lambda>k. map_option ival_json (interactions a k)),
       sources := (\<lambda>k. map_option ival_json (sources a k))\<rparr>"

definition json_doc :: "bool \<Rightarrow> document \<Rightarrow> document" where
  "json_doc replacer data =
     data\<lparr>apps := map_option (\<lambda>m k. map_option (json_app replacer) (m k)) (apps data)\<rparr>"

subsection \<open>Members inherited from \<^verbatim>\<open>Object.prototype\<close>\<close>

text \<open>
  The names under which every plain object inherits a member. A read \<^verbatim>\<open>obj[k]\<close> with
  such a name and no own property \<open>k\<close> gives a function (for \<^verbatim>\<open>__proto__\<close> the prototype
  object): a value that is truthy, is no array, has none of the fields of an entry, and
  counts as \<^verbatim>\<open>NaN\<close> in arithmetic.
\<close>

definition proto_members :: "string list" where
  "proto_members =
     [''constructor'', ''__defineGetter__'', ''__defineSetter__'', ''hasOwnProperty'',
      ''__lookupGetter__'', ''__lookupSetter__'', ''isPrototypeOf'', ''propertyIsEnumerable'',
      ''toString'', ''valueOf'', ''__proto__'', ''toLocaleString'']"

definition proto_member :: "string \<Rightarrow> bool" where
  "proto_member k = (k \<in> set proto_members)"

subsection \<open>The store\<close>

text \<open>
  \<open>Encodes data\<close> is the text \<^verbatim>\<open>JSON.stringify(data)\<close>; \<^verbatim>\<open>JSON.parse\<close> of it is
  \<open>json_doc False data\<close>, in which no \<^verbatim>\<open>Set\<close> and no \<^verbatim>\<open>NaN\<close> is left.
\<close>

definition empty_doc :: document where
  "empty_doc = \<lparr>apps = None, global = None\<rparr>"

definition loadData :: "browser \<Rightarrow> document" where
  "loadData b =
     (case analytics_slot b of
        None \<Rightarrow> empty_doc
      | Some Blank \<Rightarrow> empty_doc
      | Some Garbled \<Rightarrow> empty_doc
      | Some (Encodes d) \<Rightarrow> json_doc False d)"

definition saveData :: "document \<Rightarrow> browser \<Rightarrow> browser" where
  "saveData data b =
     (if local_quota_exceeded b then b else b\<lparr>analytics_slot := Some (Encodes data)\<rparr>)"

definition new_app :: "string \<Rightarrow> app_stats" where
  "new_app td =
     \<lparr>firstSeen = td, totalViews = 0, uniqueVisitors = SetV [], dailyViews = Map.empty,
      interactions = Map.empty, sources = Map.empty, avgTimeOnPage = 0, totalTimeOnPage = 0,
      completedSessions = 0, shares = 0, affiliateClicks = 0\<rparr>"

text \<open>
  \<^verbatim>\<open>ensureApp\<close> changes \<^verbatim>\<open>data\<close> in place and returns a reference to
  \<^verbatim>\<open>data.apps[app]\<close>. The model returns the changed document; the entry is read with
  \<open>the_app\<close> and what the callers do through the reference is done with \<open>update_app\<close>.
  The first argument is what \<^verbatim>\<open>today()\<close> returns.

  The read \<^verbatim>\<open>data.apps[app]\<close> is the lookup of the own property. This is what the code
  does when \<open>app\<close> is no inherited name or the document has an own entry for it. In the
  remaining case (an inherited name without an own entry) the code finds the inherited
  member and creates no entry; the pageview block below, which runs before any public
  function is there, has this case written out.
\<close>

definition ensureApp :: "string \<Rightarrow> document \<Rightarrow> string \<Rightarrow> document" where
  "ensureApp td data app =
     (let m = (case apps data of None \<Rightarrow> Map.empty | Some m \<Rightarrow> m);
          a = (case m app of None \<Rightarrow> new_app td | Some a \<Rightarrow> a);
          uv = (case uniqueVisitors a of
                  Arr xs \<Rightarrow> SetV (new_Set xs)
                | SetV xs \<Rightarrow> SetV xs
                | Malformed \<Rightarrow> SetV [])
      in data\<lparr>apps := Some (m(app \<mapsto> a\<lparr>uniqueVisitors := uv\<rparr>))\<rparr>)"

definition the_app :: "document \<Rightarrow> string \<Rightarrow> app_stats option" where
  "the_app data app = (case apps data of None \<Rightarrow> None | Some m \<Rightarrow> m app)"

definition update_app :: "string \<Rightarrow> (app_stats \<Rightarrow> app_stats) \<Rightarrow> document \<Rightarrow> document" where
  "update_app app f data =
     (case apps data of
        None \<Rightarrow> data
      | Some m \<Rightarrow> (case m app of None \<Rightarrow> data | Some a \<Rightarrow> data\<lparr>apps := Some (m(app \<mapsto> f a))\<rparr>))"

definition prepareForSave :: "document \<Rightarrow> document" where
  "prepareForSave data = (if apps data = None then data else json_doc True data)"

subsection \<open>Counters\<close>

text \<open>\<^verbatim>\<open>m[k] || 0\<close> on a dictionary of numbers.\<close>

definition or_zero :: "int option \<Rightarrow> int" where
  "or_zero v = (case v of None \<Rightarrow> 0 | Some n \<Rightarrow> n)"

text \<open>
  \<^verbatim>\<open>m[k] = (m[k] || 0) + 1\<close> on a dictionary of numbers whose keys are the dates that
  \<^verbatim>\<open>today()\<close> returns.
\<close>

definition bump :: "(string \<rightharpoonup> int) \<Rightarrow> string \<Rightarrow> (string \<rightharpoonup> int)" where
  "bump m k = m(k \<mapsto> or_zero (m k) + 1)"

fun truthy :: "ival option \<Rightarrow> bool" where
  "truthy None = False"
| "truthy (Some (Count n)) = (n \<noteq> 0)"
| "truthy (Some (Scores xs)) = True"
| "truthy (Some NaN) = False"
| "truthy (Some Null) = False"

text \<open>
  \<^verbatim>\<open>v++\<close>: an array is converted to a number through its string, so the empty array
  counts as 0 and an array of records as \<^verbatim>\<open>NaN\<close>.
\<close>

fun incr :: "ival \<Rightarrow> ival" where
  "incr (Count n) = Count (n + 1)"
| "incr (Scores []) = Count 1"
| "incr (Scores (x # xs)) = NaN"
| "incr NaN = NaN"
| "incr Null = Count 1"

text \<open>
  \<^verbatim>\<open>if (!m[k]) m[k] = 0; m[k]++\<close> on \<^verbatim>\<open>interactions\<close> and on \<^verbatim>\<open>sources\<close>. When \<open>k\<close>
  is an inherited name without an own property, \<^verbatim>\<open>m[k]\<close> is the inherited member: it is
  truthy, so it is not reset, and \<^verbatim>\<open>++\<close> assigns \<^verbatim>\<open>NaN\<close> to \<^verbatim>\<open>m[k]\<close>. The assignment
  makes an own property, except for \<^verbatim>\<open>__proto__\<close>, whose setter ignores a number.
\<close>

definition falsy_at :: "(string \<rightharpoonup> ival) \<Rightarrow> string \<Rightarrow> bool" where
  "falsy_at m k = (case m k of None \<Rightarrow> \<not> proto_member k | Some v \<Rightarrow> \<not> truthy (Some v))"

definition bump_interaction :: "(string \<rightharpoonup> ival) \<Rightarrow> string \<Rightarrow> (string \<rightharpoonup> ival)" where
  "bump_interaction m k =
     (let m1 = (if falsy_at m k then m(k \<mapsto> Count 0) else m)
      in case m1 k of
           None \<Rightarrow> (if k = ''__proto__'' then m1 else m1(k \<mapsto> NaN))
         | Some v \<Rightarrow> m1(k \<mapsto> incr v))"

subsection \<open>Tracking\<close>

text \<open>The constants that the body of the script computes once when it is loaded.\<close>

record page =
  visitorId :: string
  page_session :: session
  appName :: string
  dateKey :: string
  page_utm :: utm
  refCategory :: string
  pageLoadTime :: int

text \<open>\<^verbatim>\<open>app.uniqueVisitors.add(v)\<close>; after \<^verbatim>\<open>ensureApp\<close> the value is a \<^verbatim>\<open>Set\<close>.\<close>

fun visitors_add :: "visitors \<Rightarrow> string \<Rightarrow> visitors" where
  "visitors_add (SetV xs) v = SetV (set_add xs v)"
| "visitors_add u v = u"

definition new_global :: global_stats where
  "new_global = \<lparr>g_totalViews = 0, g_dailyViews = Map.empty, g_uniqueVisitors = []\<rparr>"

text \<open>
  The pageview block of the body of the script (from \<^verbatim>\<open>const data = loadData()\<close> to
  \<^verbatim>\<open>saveData(prepareForSave(data))\<close>): what it does to the entry of the app, what it
  does to the global statistics, the key of the source (\<^verbatim>\<open>utm.source || refCategory\<close>)
  and the block. The second argument of the block is what
  \<^verbatim>\<open>today()\<close> returns inside \<^verbatim>\<open>ensureApp\<close>.

  When the name of the app is an inherited name and the document has no own entry for it,
  \<^verbatim>\<open>ensureApp\<close> returns the inherited member: no entry is created,
  \<^verbatim>\<open>app.dailyViews\<close> is \<^verbatim>\<open>undefined\<close> and \<^verbatim>\<open>app.dailyViews[dateKey]\<close> throws a
  \<^verbatim>\<open>TypeError\<close> before anything is saved.
\<close>

definition count_view :: "page \<Rightarrow> string \<Rightarrow> app_stats \<Rightarrow> app_stats" where
  "count_view pg sourceKey a =
     a\<lparr>totalViews := totalViews a + 1,
       uniqueVisitors := visitors_add (uniqueVisitors a) (visitorId pg),
       dailyViews := bump (dailyViews a) (dateKey pg),
       sources := bump_interaction (sources a) sourceKey\<rparr>"

definition count_global :: "page \<Rightarrow> global_stats option \<Rightarrow> global_stats" where
  "count_global pg stored =
     (let g = (case stored of None \<Rightarrow> new_global | Some g \<Rightarrow> g)
      in g\<lparr>g_totalViews := g_totalViews g + 1,
           g_dailyViews := bump (g_dailyViews g) (dateKey pg),
           g_uniqueVisitors :=
             (if visitorId pg \<in> set (g_uniqueVisitors g) then g_uniqueVisitors g
              else g_uniqueVisitors g @ [visitorId pg])\<rparr>)"

definition source_key :: "page \<Rightarrow> string" where
  "source_key pg = (if source (page_utm pg) \<noteq> [] then source (page_utm pg) else refCategory pg)"

definition recordPageview :: "page \<Rightarrow> string \<Rightarrow> browser \<Rightarrow> (error + unit) \<times> browser" where
  "recordPageview pg td b =
     (if proto_member (appName pg) \<and> the_app (loadData b) (appName pg) = None
      then (Inl TypeError, b)
      else
        (let data = ensureApp td (loadData b) (appName pg);
             sourceKey = source_key pg;
             data1 = update_app (appName pg) (count_view pg sourceKey) data;
             data2 = data1\<lparr>global := Some (count_global pg (global data1))\<rparr>
         in (Inr (), saveData (prepareForSave data2) b)))"

text \<open>
  The body of the script. It returns the constants of the page when the public functions
  and the listeners have been installed, and nothing when it has returned at the guard for
  the admin page. An exception thrown by \<^verbatim>\<open>getVisitorId\<close>, \<^verbatim>\<open>getSession\<close> or the
  pageview block ends it.
\<close>

definition load_script :: "load_env \<Rightarrow> browser \<Rightarrow> (error + page option) \<times> browser" where
  "load_script env b =
     (case getVisitorId (rand_visitor env) b of
        (Inl e, b1) \<Rightarrow> (Inl e, b1)
      | (Inr vid, b1) \<Rightarrow>
          (case getSession (now env) (rand_session env) b1 of
             (Inl e, b2) \<Rightarrow> (Inl e, b2)
           | (Inr sess, b2) \<Rightarrow>
               (let pg = \<lparr>visitorId = vid, page_session = sess,
                          appName = getAppName (pathname env), dateKey = today env,
                          page_utm = getUtmParams env,
                          refCategory = getReferrerCategory (referrer env),
                          pageLoadTime = load_time env\<rparr>
                in if appName pg = ''admin'' then (Inr None, b2)
                   else (case recordPageview pg (today env) b2 of
                           (Inl e, b3) \<Rightarrow> (Inl e, b3)
                         | (Inr u, b3) \<Rightarrow> (Inr (Some pg), b3)))))"

subsection \<open>Public functions\<close>

definition onbTrack :: "page \<Rightarrow> string \<Rightarrow> string \<Rightarrow> browser \<Rightarrow> browser" where
  "onbTrack pg td eventName b =
     (let data = ensureApp td (loadData b) (appName pg);
          data1 = update_app (appName pg)
                    (\<lambda>a. a\<lparr>interactions := bump_interaction (interactions a) eventName\<rparr>) data
      in saveData (prepareForSave data1) b)"

definition onbAffiliateClick :: "page \<Rightarrow> string \<Rightarrow> string \<Rightarrow> browser \<Rightarrow> browser" where
  "onbAffiliateClick pg td productName b =
     (let data = ensureApp td (loadData b) (appName pg);
          data1 = update_app (appName pg)
                    (\<lambda>a. a\<lparr>affiliateClicks := affiliateClicks a + 1,
                            interactions := bump_interaction (interactions a) ''affiliate_click''\<rparr>)
                    data
      in saveData (prepareForSave data1) b)"

text \<open>\<^verbatim>\<open>platform || 'unknown'\<close>; a platform that is not given is \<^verbatim>\<open>undefined\<close>.\<close>

definition or_unknown :: "string option \<Rightarrow> string" where
  "or_unknown platform = (case platform of Some (c # cs) \<Rightarrow> c # cs | _ \<Rightarrow> ''unknown'')"

definition onbShare :: "page \<Rightarrow> string \<Rightarrow> string option \<Rightarrow> browser \<Rightarrow> browser" where
  "onbShare pg td platform b =
     (let data = ensureApp td (loadData b) (appName pg);
          data1 = update_app (appName pg)
                    (\<lambda>a. a\<lparr>shares := shares a + 1,
                            interactions :=
                              bump_interaction (interactions a) (''share_'' @ or_unknown platform)\<rparr>)
                    data
      in saveData (prepareForSave data1) b)"

text \<open>
  What \<^verbatim>\<open>onbComplete\<close> does to \<^verbatim>\<open>app.interactions\<close>. A score that is not given is
  \<^verbatim>\<open>undefined\<close>; \<^verbatim>\<open>slice(-100)\<close> keeps the last 100 elements.
\<close>

definition complete_interactions ::
  "string \<Rightarrow> int option \<Rightarrow> int option \<Rightarrow> (string \<rightharpoonup> ival) \<Rightarrow> (string \<rightharpoonup> ival)" where
  "complete_interactions dk sc maxScore i =
     (let i1 = bump_interaction i ''completed''
      in case sc of
           None \<Rightarrow> i1
         | Some s \<Rightarrow>
             (let i2 = (if \<not> truthy (i1 ''scores'') then i1(''scores'' \<mapsto> Scores []) else i1)
              in case i2 ''scores'' of
                   Some (Scores xs) \<Rightarrow>
                     (let ys = xs @ [\<lparr>score = s, max_score = maxScore, date = dk\<rparr>]
                      in i2(''scores'' \<mapsto>
                              Scores (if length ys > 100 then drop (length ys - 100) ys else ys)))
                 | _ \<Rightarrow> i2))"

definition onbComplete :: "page \<Rightarrow> string \<Rightarrow> int option \<Rightarrow> int option \<Rightarrow> browser \<Rightarrow> browser" where
  "onbComplete pg td sc maxScore b =
     (let data = ensureApp td (loadData b) (appName pg);
          data1 = update_app (appName pg)
                    (\<lambda>a. a\<lparr>completedSessions := completedSessions a + 1,
                            interactions :=
                              complete_interactions (dateKey pg) sc maxScore (interactions a)\<rparr>)
                    data
      in saveData (prepareForSave data1) b)"

subsection \<open>Time on page\<close>

text \<open>\<^verbatim>\<open>Math.round\<close> rounds to the nearest integer, a half upwards.\<close>

definition Math_round :: "real \<Rightarrow> int" where
  "Math_round x = \<lfloor>x + 1 / 2\<rfloor>"

definition timeSpent :: "page \<Rightarrow> int \<Rightarrow> int" where
  "timeSpent pg nw = Math_round (real_of_int (nw - pageLoadTime pg) / 1000)"

text \<open>
  What \<^verbatim>\<open>recordTimeOnPage\<close> does to the entry of the app. The assignment
  \<^verbatim>\<open>app.completedSessions = (app.completedSessions || 0)\<close> leaves a number as it is.
\<close>

definition add_time :: "int \<Rightarrow> app_stats \<Rightarrow> app_stats" where
  "add_time t a =
     (let total = totalTimeOnPage a + t;
          viewCount = (if totalViews a = 0 then 1 else totalViews a)
      in a\<lparr>totalTimeOnPage := total,
           avgTimeOnPage := Math_round (real_of_int total / real_of_int viewCount)\<rparr>)"

definition recordTimeOnPage :: "page \<Rightarrow> int \<Rightarrow> string \<Rightarrow> browser \<Rightarrow> browser" where
  "recordTimeOnPage pg nw td b =
     (if timeSpent pg nw < 1 \<or> timeSpent pg nw > 3600 then b
      else
        (let data = ensureApp td (loadData b) (appName pg);
             data1 = update_app (appName pg) (add_time (timeSpent pg nw)) data
         in saveData (prepareForSave data1) b))"

subsection \<open>Reading the store, sequences of calls and examples\<close>

text \<open>The entry of an app in the persisted document, and a value of its interactions.\<close>

definition stored_app :: "browser \<Rightarrow> string \<Rightarrow> app_stats option" where
  "stored_app b app = the_app (loadData b) app"

definition stored_interaction :: "browser \<Rightarrow> string \<Rightarrow> string \<Rightarrow> ival option" where
  "stored_interaction b app k =
     (case stored_app b app of None \<Rightarrow> None | Some a \<Rightarrow> interactions a k)"

text \<open>The entry that \<^verbatim>\<open>ensureApp\<close> finds or creates, and its repair of the visitors.\<close>

definition entry_or_new :: "string \<Rightarrow> app_stats option \<Rightarrow> app_stats" where
  "entry_or_new td v = (case v of None \<Rightarrow> new_app td | Some a \<Rightarrow> a)"

definition repair :: "app_stats \<Rightarrow> app_stats" where
  "repair a =
     a\<lparr>uniqueVisitors :=
         (case uniqueVisitors a of
            Arr xs \<Rightarrow> SetV (new_Set xs)
          | SetV xs \<Rightarrow> SetV xs
          | Malformed \<Rightarrow> SetV [])\<rparr>"

text \<open>The last \<open>n\<close> elements of a list, as \<^verbatim>\<open>slice(-n)\<close> returns them.\<close>

definition lastn :: "nat \<Rightarrow> 'a list \<Rightarrow> 'a list" where
  "lastn n ys = drop (length ys - n) ys"

text \<open>
  The referrer rules in the words of the specification: an ordered list of patterns and
  categories, of which the first that matches decides.
\<close>

definition referrer_rules :: "(string \<times> string) list" where
  "referrer_rules =
     [(''onenightbuild.com'', ''internal''),
      (''google.'', ''search''), (''bing.'', ''search''), (''duckduckgo.'', ''search''),
      (''twitter.com'', ''twitter''), (''x.com'', ''twitter''),
      (''reddit.com'', ''reddit''),
      (''facebook.com'', ''social''), (''instagram.com'', ''social''),
      (''t.co'', ''twitter'')]"

fun first_match :: "string \<Rightarrow> (string \<times> string) list \<Rightarrow> string" where
  "first_match ref [] = ''referral''"
| "first_match ref ((pat, cat) # rules) =
     (if str_includes ref pat then cat else first_match ref rules)"

definition spec_referrerCategory :: "string \<Rightarrow> string" where
  "spec_referrerCategory ref = (if ref = [] then ''direct'' else first_match ref referrer_rules)"

text \<open>
  Page loads of several visitors one after the other (each load runs the pageview block,
  whether or not an earlier load has thrown), and completions with a score.
\<close>

fun record_pageviews :: "(page \<times> string) list \<Rightarrow> browser \<Rightarrow> browser" where
  "record_pageviews [] b = b"
| "record_pageviews ((pg, td) # rest) b = record_pageviews rest (snd (recordPageview pg td b))"

fun complete_all :: "page \<Rightarrow> string \<Rightarrow> (int \<times> int option) list \<Rightarrow> browser \<Rightarrow> browser" where
  "complete_all pg td [] b = b"
| "complete_all pg td ((s, m) # rest) b = complete_all pg td rest (onbComplete pg td (Some s) m b)"

definition quiz_page :: page where
  "quiz_page =
     \<lparr>visitorId = ''v_abc'',
      page_session = \<lparr>session_id = ''s_abc'', start = 0, lastActivity = 0, pageviews = 1\<rparr>,
      appName = ''quiz'', dateKey = ''2024-05-01'',
      page_utm = \<lparr>source = [], medium = [], campaign = []\<rparr>,
      refCategory = ''search'', pageLoadTime = 0\<rparr>"

definition empty_browser :: browser where
  "empty_browser =
     \<lparr>visitor_slot = None, analytics_slot = None, session_slot = None,
      local_quota_exceeded = False, session_quota_exceeded = False\<rparr>"

definition quiz_browser :: browser where
  "quiz_browser =
     empty_browser\<lparr>analytics_slot :=
       Some (Encodes \<lparr>apps = Some [''quiz'' \<mapsto>
                        (new_app ''2024-05-01'')\<lparr>totalViews := 2, totalTimeOnPage := 5,
                           uniqueVisitors := Arr [''v_abc'']\<rparr>],
                      global = None\<rparr>)\<rparr>"

definition old_session :: session where
  "old_session = \<lparr>session_id = ''s_old'', start = 0, lastActivity = 1000, pageviews = 3\<rparr>"

definition session_browser :: browser where
  "session_browser = empty_browser\<lparr>session_slot := Some (Encodes (Some old_session))\<rparr>"

definition admin_env :: load_env where
  "admin_env =
     \<lparr>pathname = ''/admin/anything'', utm_source = None, utm_medium = None, utm_campaign = None,
      referrer = [], now = 5000, load_time = 5001, today = ''2024-05-01'',
      rand_visitor = ''k3j9x2m1q'', rand_session = ''p0o9i8u7y''\<rparr>"

definition constructor_env :: load_env where
  "constructor_env = admin_env\<lparr>pathname := ''/constructor/''\<rparr>"

definition full_browser :: browser where
  "full_browser = empty_browser\<lparr>local_quota_exceeded := True\<rparr>"

definition garbled_browser :: browser where
  "garbled_browser = empty_browser\<lparr>session_slot := Some Garbled\<rparr>"

text \<open>
  The list that \<^verbatim>\<open>onbComplete\<close> appends to: the stored list, the empty list when the
  stored value is absent or falsy, and none when the stored value is some other value.
\<close>

definition prior_list :: "ival option \<Rightarrow> score_record list option" where
  "prior_list v =
     (if truthy v then (case v of Some (Scores xs) \<Rightarrow> Some xs | _ \<Rightarrow> None) else Some [])"

definition score_of :: "string \<Rightarrow> int \<times> int option \<Rightarrow> score_record" where
  "score_of dk r = \<lparr>score = fst r, max_score = snd r, date = dk\<rparr>"

text \<open>The array of visitors in the entry of an app in the persisted document.\<close>

definition stored_visitors :: "browser \<Rightarrow> string \<Rightarrow> string list" where
  "stored_visitors b app =
     (case stored_app b app of
        None \<Rightarrow> []
      | Some a \<Rightarrow> (case uniqueVisitors a of Arr ys \<Rightarrow> ys | _ \<Rightarrow> []))"

text \<open>
  A document in memory between \<^verbatim>\<open>ensureApp\<close> and \<^verbatim>\<open>saveData\<close>: the entry of the app is
  there and its \<open>uniqueVisitors\<close> is a \<^verbatim>\<open>Set\<close>.
\<close>

definition in_memory :: "string \<Rightarrow> document \<Rightarrow> bool" where
  "in_memory app d =
     (case the_app d app of
        None \<Rightarrow> False
      | Some a \<Rightarrow> (case uniqueVisitors a of SetV xs \<Rightarrow> distinct xs | _ \<Rightarrow> False))"


text \<open>The view counters of all entries of the persisted document are not negative.\<close>

definition views_ok :: "browser \<Rightarrow> bool" where
  "views_ok b = (\<forall>app a. stored_app b app = Some a \<longrightarrow> 0 \<le> totalViews a)"

text \<open>
  The persisted document has no entry under an inherited name. The script never writes one:
  \<^verbatim>\<open>ensureApp\<close> creates no entry where it finds the inherited member.
\<close>

definition own_names_ok :: "browser \<Rightarrow> bool" where
  "own_names_ok b = (\<forall>app. proto_member app \<longrightarrow> stored_app b app = None)"

section \<open>Properties\<close>

subsection \<open>Strings\<close>

lemma startsWith_iff: "startsWith s p \<longleftrightarrow> (\<exists>post. s = p @ post)"
  by (induction s p rule: startsWith.induct) auto

lemma str_includes_iff: "str_includes s p \<longleftrightarrow> (\<exists>pre post. s = pre @ p @ post)"
proof (induction s)
  case Nil
  then show ?case by auto
next
  case (Cons c cs)
  show ?case
  proof
    assume "str_includes (c # cs) p"
    then consider "startsWith (c # cs) p" | "str_includes cs p" by auto
    then show "\<exists>pre post. c # cs = pre @ p @ post"
    proof cases
      case 1
      then obtain post where "c # cs = p @ post" by (auto simp: startsWith_iff)
      then have "c # cs = [] @ p @ post" by simp
      then show ?thesis by blast
    next
      case 2
      then obtain pre post where "cs = pre @ p @ post" using Cons.IH by blast
      then have "c # cs = (c # pre) @ p @ post" by simp
      then show ?thesis by blast
    qed
  next
    assume "\<exists>pre post. c # cs = pre @ p @ post"
    then obtain pre post where e: "c # cs = pre @ p @ post" by blast
    show "str_includes (c # cs) p"
    proof (cases pre)
      case Nil
      with e have "startsWith (c # cs) p" by (auto simp: startsWith_iff)
      then show ?thesis by simp
    next
      case (Cons d ds)
      with e have "cs = ds @ p @ post" by simp
      then have "str_includes cs p" using Cons.IH by blast
      then show ?thesis by simp
    qed
  qed
qed

subsection \<open>Referrer classification\<close>

text \<open>
  C8. The category of a referrer is decided by the first rule that matches, in the order
  direct (empty referrer), internal, search, twitter, reddit, social, the short-link domain,
  and referral for any other referrer. A referrer that contains the own domain and the name
  of a search engine is internal.
\<close>

theorem referrer_first_match_wins:
  "getReferrerCategory ref = spec_referrerCategory ref \<and>
   (str_includes ref ''onenightbuild.com'' \<and>
    (str_includes ref ''google.'' \<or> str_includes ref ''bing.'' \<or> str_includes ref ''duckduckgo.'')
    \<longrightarrow> getReferrerCategory ref = ''internal'')"
proof
  show "getReferrerCategory ref = spec_referrerCategory ref"
    by (simp add: getReferrerCategory_def spec_referrerCategory_def referrer_rules_def)
next
  show "str_includes ref ''onenightbuild.com'' \<and>
    (str_includes ref ''google.'' \<or> str_includes ref ''bing.'' \<or> str_includes ref ''duckduckgo.'')
    \<longrightarrow> getReferrerCategory ref = ''internal''"
  proof
    assume h: "str_includes ref ''onenightbuild.com'' \<and>
      (str_includes ref ''google.'' \<or> str_includes ref ''bing.'' \<or> str_includes ref ''duckduckgo.'')"
    then have "ref \<noteq> []" by auto
    with h show "getReferrerCategory ref = ''internal''"
      by (simp add: getReferrerCategory_def)
  qed
qed

theorem referrer_first_match_wins_witness:
  "str_includes ''https://onenightbuild.com/?q=google.com'' ''onenightbuild.com'' \<and>
   str_includes ''https://onenightbuild.com/?q=google.com'' ''google.'' \<and>
   getReferrerCategory ''https://onenightbuild.com/?q=google.com'' = ''internal'' \<and>
   spec_referrerCategory ''https://onenightbuild.com/?q=google.com'' = ''internal''"
proof -
  have a: "str_includes ''https://onenightbuild.com/?q=google.com'' ''onenightbuild.com''"
    by simp
  have b: "str_includes ''https://onenightbuild.com/?q=google.com'' ''google.''"
    by simp
  from a b referrer_first_match_wins [of "''https://onenightbuild.com/?q=google.com''"]
  show ?thesis by metis
qed

subsection \<open>One cycle of the store\<close>

lemma the_app_ensureApp:
  "the_app (ensureApp td d app) app = Some (repair (entry_or_new td (the_app d app)))"
  by (simp add: the_app_def ensureApp_def repair_def entry_or_new_def Let_def split: option.splits)

lemma the_app_update_app:
  "the_app (update_app app f d) app = map_option f (the_app d app)"
  by (simp add: the_app_def update_app_def split: option.splits)

lemma the_app_json_doc:
  "the_app (json_doc r d) app = map_option (json_app r) (the_app d app)"
  by (simp add: the_app_def json_doc_def split: option.splits)

lemma the_app_prepareForSave:
  "the_app (prepareForSave d) app = map_option (json_app True) (the_app d app)"
  by (simp add: prepareForSave_def the_app_json_doc) (simp add: the_app_def)

lemma loadData_saveData:
  "\<not> local_quota_exceeded b \<Longrightarrow> loadData (saveData d b) = json_doc False d"
  by (simp add: loadData_def saveData_def)

lemma quota_saveData [simp]: "local_quota_exceeded (saveData d b) = local_quota_exceeded b"
  by (simp add: saveData_def)

lemma stored_app_cycle:
  "\<not> local_quota_exceeded b \<Longrightarrow>
   stored_app (saveData (prepareForSave (update_app app f (ensureApp td (loadData b) app))) b) app =
     Some (json_app False (json_app True (f (repair (entry_or_new td (stored_app b app))))))"
  by (simp add: stored_app_def loadData_saveData the_app_json_doc the_app_prepareForSave
      the_app_update_app the_app_ensureApp)

subsection \<open>Time on page\<close>

lemma Math_round_round: "Math_round x = round x"
  by (simp add: Math_round_def round_def)

text \<open>
  C4. The elapsed time is \<open>round ((now - loadTimestamp) / 1000)\<close> seconds. Outside of
  1..3600 the call changes nothing. Otherwise, when the store takes the write and the view
  counter of the entry is not negative, the elapsed time is added to \<open>totalTimeOnPage\<close> and
  \<open>avgTimeOnPage\<close> becomes \<open>round (totalTimeOnPage / max totalViews 1)\<close>.
\<close>

theorem recordTimeOnPage_spec:
  fixes pg :: page and nw :: int and td :: string and b :: browser
  defines "elapsed \<equiv> round (real_of_int (nw - pageLoadTime pg) / 1000)"
  defines "before \<equiv> entry_or_new td (stored_app b (appName pg))"
  shows "(elapsed < 1 \<or> elapsed > 3600 \<longrightarrow> recordTimeOnPage pg nw td b = b) \<and>
         (1 \<le> elapsed \<and> elapsed \<le> 3600 \<and> \<not> local_quota_exceeded b \<and> 0 \<le> totalViews before \<longrightarrow>
            (\<exists>a. stored_app (recordTimeOnPage pg nw td b) (appName pg) = Some a \<and>
                 totalViews a = totalViews before \<and>
                 totalTimeOnPage a = totalTimeOnPage before + elapsed \<and>
                 avgTimeOnPage a =
                   round (real_of_int (totalTimeOnPage a) / real_of_int (max (totalViews a) 1))))"
proof -
  have e: "timeSpent pg nw = elapsed"
    by (simp add: timeSpent_def elapsed_def Math_round_round)
  have noop: "elapsed < 1 \<or> elapsed > 3600 \<longrightarrow> recordTimeOnPage pg nw td b = b"
    using e by (auto simp: recordTimeOnPage_def)
  have acc: "\<exists>a. stored_app (recordTimeOnPage pg nw td b) (appName pg) = Some a \<and>
                 totalViews a = totalViews before \<and>
                 totalTimeOnPage a = totalTimeOnPage before + elapsed \<and>
                 avgTimeOnPage a =
                   round (real_of_int (totalTimeOnPage a) / real_of_int (max (totalViews a) 1))"
    if h: "1 \<le> elapsed" "elapsed \<le> 3600" "\<not> local_quota_exceeded b" "0 \<le> totalViews before"
  proof -
    have r: "recordTimeOnPage pg nw td b =
               saveData (prepareForSave (update_app (appName pg) (add_time elapsed)
                 (ensureApp td (loadData b) (appName pg)))) b"
      using h e by (simp add: recordTimeOnPage_def Let_def)
    have vc: "(if totalViews before = 0 then 1 else totalViews before) = max (totalViews before) 1"
      using h(4) by auto
    define a where "a = json_app False (json_app True (add_time elapsed (repair before)))"
    have s: "stored_app (recordTimeOnPage pg nw td b) (appName pg) = Some a"
      unfolding r stored_app_cycle [OF h(3)] before_def a_def by simp
    have tv: "totalViews a = totalViews before"
      by (simp add: a_def json_app_def add_time_def repair_def Let_def)
    have tt: "totalTimeOnPage a = totalTimeOnPage before + elapsed"
      by (simp add: a_def json_app_def add_time_def repair_def Let_def)
    have "avgTimeOnPage a =
            Math_round (real_of_int (totalTimeOnPage before + elapsed) /
              real_of_int (if totalViews before = 0 then 1 else totalViews before))"
      by (simp add: a_def json_app_def add_time_def repair_def Let_def)
    then have av: "avgTimeOnPage a =
            round (real_of_int (totalTimeOnPage a) / real_of_int (max (totalViews a) 1))"
      by (simp only: vc tv tt Math_round_round)
    from s tv tt av show ?thesis by blast
  qed
  from noop acc show ?thesis by blast
qed

theorem recordTimeOnPage_spec_witness:
  "recordTimeOnPage quiz_page 499 ''2024-05-01'' quiz_browser = quiz_browser \<and>
   recordTimeOnPage quiz_page 3600500 ''2024-05-01'' quiz_browser = quiz_browser \<and>
   (\<exists>a. stored_app (recordTimeOnPage quiz_page 500 ''2024-05-01'' quiz_browser) ''quiz'' = Some a \<and>
        totalViews a = 2 \<and> totalTimeOnPage a = 6 \<and> avgTimeOnPage a = 3) \<and>
   (\<exists>a. stored_app (recordTimeOnPage quiz_page 3600499 ''2024-05-01'' quiz_browser) ''quiz'' = Some a \<and>
        totalViews a = 2 \<and> totalTimeOnPage a = 3605 \<and> avgTimeOnPage a = 1803)"
proof -
  have p: "pageLoadTime quiz_page = 0" "appName quiz_page = ''quiz''"
    by (simp_all add: quiz_page_def)
  have bf: "entry_or_new ''2024-05-01'' (stored_app quiz_browser ''quiz'') =
             (new_app ''2024-05-01'')\<lparr>totalViews := 2, totalTimeOnPage := 5,
                           uniqueVisitors := Arr [''v_abc'']\<rparr>"
    by (simp add: entry_or_new_def stored_app_def quiz_browser_def empty_browser_def
        loadData_def the_app_def json_doc_def json_app_def json_visitors_def new_app_def)
  have q: "\<not> local_quota_exceeded quiz_browser"
    by (simp add: quiz_browser_def empty_browser_def)
  have r0: "round (real_of_int (499 - 0) / 1000) = 0"
    by (simp add: round_def)
  have r1: "round (real_of_int (3600500 - 0) / 1000) = 3601"
    by (simp add: round_def)
  have r2: "round (real_of_int (500 - 0) / 1000) = 1"
    by (simp add: round_def)
  have r3: "round (real_of_int (3600499 - 0) / 1000) = 3600"
    by (simp add: round_def)
  have r4: "round (real_of_int 6 / real_of_int 2) = 3"
    by (simp add: round_def)
  have r5: "round (real_of_int 3605 / real_of_int 2) = 1803"
    by (simp add: round_def)
  from recordTimeOnPage_spec [where pg = quiz_page and nw = "499" and td = "''2024-05-01''" and b = quiz_browser]
  have a: "recordTimeOnPage quiz_page 499 ''2024-05-01'' quiz_browser = quiz_browser"
    unfolding p r0 by simp
  from recordTimeOnPage_spec [where pg = quiz_page and nw = "3600500" and td = "''2024-05-01''" and b = quiz_browser]
  have b: "recordTimeOnPage quiz_page 3600500 ''2024-05-01'' quiz_browser = quiz_browser"
    unfolding p r1 by simp
  from recordTimeOnPage_spec [where pg = quiz_page and nw = "500" and td = "''2024-05-01''" and b = quiz_browser] q
  have c: "\<exists>a. stored_app (recordTimeOnPage quiz_page 500 ''2024-05-01'' quiz_browser) ''quiz'' = Some a \<and>
        totalViews a = 2 \<and> totalTimeOnPage a = 6 \<and> avgTimeOnPage a = 3"
    unfolding p r2 bf using r4 by (auto simp: new_app_def)
  from recordTimeOnPage_spec [where pg = quiz_page and nw = "3600499" and td = "''2024-05-01''" and b = quiz_browser] q
  have d: "\<exists>a. stored_app (recordTimeOnPage quiz_page 3600499 ''2024-05-01'' quiz_browser) ''quiz'' = Some a \<and>
        totalViews a = 2 \<and> totalTimeOnPage a = 3605 \<and> avgTimeOnPage a = 1803"
    unfolding p r3 bf using r5 by (auto simp: new_app_def)
  from a b c d show ?thesis by blast
qed

subsection \<open>Identity\<close>

lemma getSession_returns:
  assumes "parse_session (session_slot b) = Inr stored"
    and "\<not> session_quota_exceeded b"
  shows "\<exists>s. getSession nw rnd b = (Inr s, b\<lparr>session_slot := Some (Encodes (Some s))\<rparr>) \<and>
             lastActivity s = nw \<and>
             (case stored of
                None \<Rightarrow> session_id s = ''s_'' @ rnd \<and> start s = nw \<and> pageviews s = 1
              | Some old \<Rightarrow>
                  if nw - lastActivity old \<le> 30 * 60 * 1000
                  then session_id s = session_id old \<and> start s = start old \<and>
                       pageviews s = pageviews old + 1
                  else session_id s = ''s_'' @ rnd \<and> start s = nw \<and> pageviews s = 1)"
proof (cases stored)
  case None
  with assms show ?thesis by (simp add: getSession_def Let_def)
next
  case (Some old)
  show ?thesis
  proof (cases "nw - lastActivity old \<le> 30 * 60 * 1000")
    case True
    with assms Some show ?thesis by (simp add: getSession_def Let_def)
  next
    case False
    with assms Some show ?thesis by (simp add: getSession_def Let_def)
  qed
qed

text \<open>
  C5. When the session slot can be read and the store takes the write, \<^verbatim>\<open>getSession\<close>
  returns a session and has it persisted. The session has the identifier of the stored one
  when the idle gap is at most 30 minutes, and is a fresh one (new identifier, start now)
  when the gap is longer or no session is stored. In each case \<open>lastActivity\<close> is now and
  \<open>pageviews\<close> is one more than before (one for a fresh session).
\<close>

theorem getSession_spec:
  assumes "parse_session (session_slot b) = Inr stored"
    and "\<not> session_quota_exceeded b"
  shows "\<exists>s. getSession nw rnd b = (Inr s, b\<lparr>session_slot := Some (Encodes (Some s))\<rparr>) \<and>
             lastActivity s = nw \<and>
             (case stored of
                None \<Rightarrow> session_id s = ''s_'' @ rnd \<and> start s = nw \<and> pageviews s = 1
              | Some old \<Rightarrow>
                  if nw - lastActivity old \<le> 30 * 60 * 1000
                  then session_id s = session_id old \<and> start s = start old \<and>
                       pageviews s = pageviews old + 1
                  else session_id s = ''s_'' @ rnd \<and> start s = nw \<and> pageviews s = 1)"
  using assms by (rule getSession_returns)

theorem getSession_spec_witness:
  "(\<exists>s. getSession (1000 + 30 * 60 * 1000 - 1) ''new'' session_browser =
          (Inr s, session_browser\<lparr>session_slot := Some (Encodes (Some s))\<rparr>) \<and>
        lastActivity s = 1000 + 30 * 60 * 1000 - 1 \<and> session_id s = ''s_old'' \<and> pageviews s = 4) \<and>
   (\<exists>s. getSession (1000 + 30 * 60 * 1000 + 1) ''new'' session_browser =
          (Inr s, session_browser\<lparr>session_slot := Some (Encodes (Some s))\<rparr>) \<and>
        lastActivity s = 1000 + 30 * 60 * 1000 + 1 \<and> session_id s = ''s_new'' \<and> pageviews s = 1) \<and>
   (\<exists>s. getSession 7 ''new'' empty_browser =
          (Inr s, empty_browser\<lparr>session_slot := Some (Encodes (Some s))\<rparr>) \<and>
        lastActivity s = 7 \<and> session_id s = ''s_new'' \<and> pageviews s = 1)"
proof -
  have p: "parse_session (session_slot session_browser) = Inr (Some old_session)"
    by (simp add: parse_session_def session_browser_def empty_browser_def)
  have q: "\<not> session_quota_exceeded session_browser"
    by (simp add: session_browser_def empty_browser_def)
  have p0: "parse_session (session_slot empty_browser) = Inr None"
    by (simp add: parse_session_def empty_browser_def)
  have q0: "\<not> session_quota_exceeded empty_browser"
    by (simp add: empty_browser_def)
  from getSession_spec [OF p q, of "1000 + 30 * 60 * 1000 - 1" "''new''"]
  have a: "\<exists>s. getSession (1000 + 30 * 60 * 1000 - 1) ''new'' session_browser =
          (Inr s, session_browser\<lparr>session_slot := Some (Encodes (Some s))\<rparr>) \<and>
        lastActivity s = 1000 + 30 * 60 * 1000 - 1 \<and> session_id s = ''s_old'' \<and> pageviews s = 4"
    by (auto simp: old_session_def)
  from getSession_spec [OF p q, of "1000 + 30 * 60 * 1000 + 1" "''new''"]
  have b: "\<exists>s. getSession (1000 + 30 * 60 * 1000 + 1) ''new'' session_browser =
          (Inr s, session_browser\<lparr>session_slot := Some (Encodes (Some s))\<rparr>) \<and>
        lastActivity s = 1000 + 30 * 60 * 1000 + 1 \<and> session_id s = ''s_new'' \<and> pageviews s = 1"
    by (auto simp: old_session_def)
  from getSession_spec [OF p0 q0, of 7 "''new''"]
  have c: "\<exists>s. getSession 7 ''new'' empty_browser =
          (Inr s, empty_browser\<lparr>session_slot := Some (Encodes (Some s))\<rparr>) \<and>
        lastActivity s = 7 \<and> session_id s = ''s_new'' \<and> pageviews s = 1"
    by auto
  from a b c show ?thesis by blast
qed

lemma analytics_getVisitorId: "analytics_slot (snd (getVisitorId rnd b)) = analytics_slot b"
  by (simp add: getVisitorId_def Let_def split: option.splits list.splits)

lemma analytics_getSession: "analytics_slot (snd (getSession nw rnd b)) = analytics_slot b"
  by (simp add: getSession_def Let_def split: sum.splits)

subsection \<open>The admin page\<close>

lemma strip_slashes_admin:
  "strip_slashes (''/admin/'' @ rest) = ''admin'' \<or>
   (\<exists>r. strip_slashes (''/admin/'' @ rest) = ''admin/'' @ r)"
proof (cases "rest = []")
  case True
  then show ?thesis by (simp add: strip_slashes_def)
next
  case False
  then have "butlast (''admin/'' @ rest) = ''admin/'' @ butlast rest"
    by (simp add: butlast_append)
  then show ?thesis by (auto simp: strip_slashes_def Let_def)
qed

lemma getAppName_admin: "getAppName (''/admin/'' @ rest) = ''admin''"
  using strip_slashes_admin [of rest] by (auto simp: getAppName_def Let_def)

text \<open>
  C9. A path under \<^verbatim>\<open>/admin/\<close> resolves to the namespace \<open>admin\<close>, and when the namespace
  is \<open>admin\<close> the script leaves the slot of the analytics document as it was and installs
  none of the public functions: no pageview is recorded and nothing is saved.
\<close>

theorem admin_leaves_document:
  "getAppName (''/admin/'' @ rest) = ''admin'' \<and>
   (getAppName (pathname env) = ''admin'' \<longrightarrow>
      analytics_slot (snd (load_script env b)) = analytics_slot b \<and>
      (\<forall>pg. fst (load_script env b) \<noteq> Inr (Some pg)))"
proof -
  have "analytics_slot (snd (load_script env b)) = analytics_slot b \<and>
        (\<forall>pg. fst (load_script env b) \<noteq> Inr (Some pg))"
    if adm: "getAppName (pathname env) = ''admin''"
  proof (cases "getVisitorId (rand_visitor env) b")
    case v: (Pair r1 b1)
    have a1: "analytics_slot b1 = analytics_slot b"
      using analytics_getVisitorId [of "rand_visitor env" b] v by simp
    show ?thesis
    proof (cases r1)
      case (Inl e)
      with v a1 show ?thesis by (simp add: load_script_def)
    next
      case (Inr vid)
      show ?thesis
      proof (cases "getSession (now env) (rand_session env) b1")
        case s: (Pair r2 b2)
        have a2: "analytics_slot b2 = analytics_slot b"
          using analytics_getSession [of "now env" "rand_session env" b1] s a1 by simp
        show ?thesis
        proof (cases r2)
          case (Inl e)
          with v Inr s a2 show ?thesis by (simp add: load_script_def)
        next
          case r: (Inr sess)
          with v Inr s a2 adm show ?thesis by (simp add: load_script_def Let_def)
        qed
      qed
    qed
  qed
  with getAppName_admin show ?thesis by blast
qed

theorem admin_leaves_document_witness:
  "getAppName (pathname admin_env) = ''admin'' \<and>
   analytics_slot (snd (load_script admin_env quiz_browser)) = analytics_slot quiz_browser \<and>
   (\<forall>pg. fst (load_script admin_env quiz_browser) \<noteq> Inr (Some pg))"
proof -
  have "getAppName (pathname admin_env) = ''admin''"
    by (simp add: admin_env_def getAppName_def strip_slashes_def)
  with admin_leaves_document [of _ admin_env quiz_browser] show ?thesis by blast
qed

text \<open>
  C10. On the admin page, when the stores take writes and the session slot can be read, the
  script returns at the guard with the identity slots written: the visitor slot holds the
  identifier that was there or a new one, and the session slot holds a session whose
  \<open>lastActivity\<close> is now and whose \<open>pageviews\<close> is one more than before (one for a fresh
  session). The slot of the analytics document is as it was.
\<close>

theorem admin_still_writes_identity:
  assumes "getAppName (pathname env) = ''admin''"
    and "\<not> local_quota_exceeded b"
    and "\<not> session_quota_exceeded b"
    and "parse_session (session_slot b) = Inr stored"
  shows "\<exists>b' s. load_script env b = (Inr None, b') \<and>
           analytics_slot b' = analytics_slot b \<and>
           visitor_slot b' =
             Some (case visitor_slot b of
                     Some (c # cs) \<Rightarrow> c # cs
                   | _ \<Rightarrow> ''v_'' @ rand_visitor env) \<and>
           session_slot b' = Some (Encodes (Some s)) \<and>
           lastActivity s = now env \<and>
           pageviews s =
             (case stored of
                None \<Rightarrow> 1
              | Some old \<Rightarrow>
                  if now env - lastActivity old \<le> 30 * 60 * 1000 then pageviews old + 1 else 1)"
proof -
  define vid where "vid = (case visitor_slot b of
                     Some (c # cs) \<Rightarrow> c # cs
                   | _ \<Rightarrow> ''v_'' @ rand_visitor env)"
  define b1 where "b1 = b\<lparr>visitor_slot := Some vid\<rparr>"
  have v: "getVisitorId (rand_visitor env) b = (Inr vid, b1)"
    using assms(2) by (auto simp: getVisitorId_def vid_def b1_def Let_def split: option.splits list.splits)
  have p1: "parse_session (session_slot b1) = Inr stored" and q1: "\<not> session_quota_exceeded b1"
    using assms(3,4) by (simp_all add: b1_def)
  from getSession_returns [OF p1 q1, of "now env" "rand_session env"]
  obtain s where s: "getSession (now env) (rand_session env) b1 =
        (Inr s, b1\<lparr>session_slot := Some (Encodes (Some s))\<rparr>)"
    and la: "lastActivity s = now env"
    and pv: "pageviews s =
             (case stored of
                None \<Rightarrow> 1
              | Some old \<Rightarrow>
                  if now env - lastActivity old \<le> 30 * 60 * 1000 then pageviews old + 1 else 1)"
    by (auto split: option.splits if_splits)
  have "load_script env b = (Inr None, b1\<lparr>session_slot := Some (Encodes (Some s))\<rparr>)"
    using v s assms(1) by (simp add: load_script_def Let_def)
  moreover have "analytics_slot (b1\<lparr>session_slot := Some (Encodes (Some s))\<rparr>) = analytics_slot b"
    by (simp add: b1_def)
  moreover have "visitor_slot (b1\<lparr>session_slot := Some (Encodes (Some s))\<rparr>) = Some vid"
    by (simp add: b1_def)
  ultimately show ?thesis
    using la pv unfolding vid_def by auto
qed

theorem admin_still_writes_identity_witness:
  "\<exists>b' s. load_script admin_env session_browser = (Inr None, b') \<and>
           analytics_slot b' = None \<and>
           visitor_slot b' = Some ''v_k3j9x2m1q'' \<and>
           session_slot b' = Some (Encodes (Some s)) \<and>
           lastActivity s = 5000 \<and> pageviews s = 4"
proof -
  have a: "getAppName (pathname admin_env) = ''admin''"
    by (simp add: admin_env_def getAppName_def strip_slashes_def)
  have l: "\<not> local_quota_exceeded session_browser"
    and q: "\<not> session_quota_exceeded session_browser"
    and p: "parse_session (session_slot session_browser) = Inr (Some old_session)"
    by (simp_all add: session_browser_def empty_browser_def parse_session_def)
  from admin_still_writes_identity [OF a l q p]
  show ?thesis
    by (simp add: session_browser_def empty_browser_def old_session_def admin_env_def)
qed

subsection \<open>Exceptions\<close>

text \<open>
  C3. \<^verbatim>\<open>getVisitorId\<close> writes the new identifier with no handler around the write: when
  the store refuses the write, the exception leaves \<^verbatim>\<open>getVisitorId\<close> and the body of the
  script. \<^verbatim>\<open>getSession\<close> parses the session slot with no handler either.
\<close>

theorem getVisitorId_throws_when_store_full:
  "getVisitorId ''k3j9x2m1q'' full_browser = (Inl QuotaExceededError, full_browser) \<and>
   load_script admin_env full_browser = (Inl QuotaExceededError, full_browser) \<and>
   getSession 5000 ''p0o9i8u7y'' garbled_browser = (Inl SyntaxError, garbled_browser)"
  by (simp add: getVisitorId_def getSession_def parse_session_def load_script_def
      full_browser_def garbled_browser_def empty_browser_def admin_env_def)

subsection \<open>Completions and the list of scores\<close>

lemma lastn_length: "length (lastn n ys) \<le> n"
  by (simp add: lastn_def)

lemma lastn_short: "length ys \<le> n \<Longrightarrow> lastn n ys = ys"
  by (simp add: lastn_def)

lemma lastn_lastn_append: "lastn n (lastn n ys @ zs) = lastn n (ys @ zs)"
  by (cases "length ys \<le> n") (auto simp: lastn_def add.commute)

lemma slice_lastn: "(if length ys > 100 then drop (length ys - 100) ys else ys) = lastn 100 ys"
  by (simp add: lastn_def)

lemma bump_interaction_other: "k' \<noteq> k \<Longrightarrow> bump_interaction m k k' = m k'"
  by (auto simp: bump_interaction_def Let_def split: option.splits)

lemma complete_scores_list:
  assumes "prior_list (i ''scores'') = Some xs"
  shows "complete_interactions dk (Some s) m i ''scores'' =
           Some (Scores (lastn 100 (xs @ [score_of dk (s, m)])))"
proof -
  have k: "bump_interaction i ''completed'' ''scores'' = i ''scores''"
    by (rule bump_interaction_other) simp
  show ?thesis
  proof (cases "truthy (i ''scores'')")
    case True
    with assms have "i ''scores'' = Some (Scores xs)"
      by (auto simp: prior_list_def split: option.splits ival.splits)
    with k show ?thesis
      by (simp add: complete_interactions_def Let_def slice_lastn score_of_def)
  next
    case False
    with assms have "xs = []" by (simp add: prior_list_def)
    with k False show ?thesis
      by (simp add: complete_interactions_def Let_def lastn_def score_of_def)
  qed
qed

lemma complete_scores_other:
  assumes "prior_list (i ''scores'') = None"
  shows "complete_interactions dk (Some s) m i ''scores'' = i ''scores''"
proof -
  have k: "bump_interaction i ''completed'' ''scores'' = i ''scores''"
    by (rule bump_interaction_other) simp
  from assms have t: "truthy (i ''scores'')" and n: "\<forall>xs. i ''scores'' \<noteq> Some (Scores xs)"
    by (auto simp: prior_list_def split: if_splits)
  then obtain v where v: "i ''scores'' = Some v" by (cases "i ''scores''") auto
  with n have "\<forall>xs. v \<noteq> Scores xs" by simp
  with k t v show ?thesis
    by (cases v) (simp_all add: complete_interactions_def Let_def)
qed

lemma interactions_entry_or_new:
  "interactions (entry_or_new td (stored_app b app)) = stored_interaction b app"
  by (rule ext) (simp add: entry_or_new_def stored_interaction_def new_app_def split: option.splits)

lemma stored_interaction_onbComplete:
  assumes "\<not> local_quota_exceeded b"
  shows "stored_interaction (onbComplete pg td sc m b) (appName pg) k =
           map_option (\<lambda>v. ival_json (ival_json v))
             (complete_interactions (dateKey pg) sc m (stored_interaction b (appName pg)) k)"
  unfolding onbComplete_def Let_def stored_interaction_def [of "saveData _ _"]
    stored_app_cycle [OF assms]
  by (simp add: json_app_def repair_def interactions_entry_or_new option.map_comp comp_def)

lemma quota_onbComplete [simp]:
  "local_quota_exceeded (onbComplete pg td sc m b) = local_quota_exceeded b"
  by (simp add: onbComplete_def Let_def)

lemma scores_step:
  assumes "\<not> local_quota_exceeded b"
    and "prior_list (stored_interaction b (appName pg) ''scores'') = Some xs"
  shows "stored_interaction (onbComplete pg td (Some s) m b) (appName pg) ''scores'' =
           Some (Scores (lastn 100 (xs @ [score_of (dateKey pg) (s, m)])))"
  using complete_scores_list [where i = "stored_interaction b (appName pg)", OF assms(2)]
  by (simp add: stored_interaction_onbComplete [OF assms(1)])

lemma scores_sequence:
  assumes "\<not> local_quota_exceeded b"
    and "stored_interaction b (appName pg) ''scores'' = Some (Scores xs)"
    and "length xs \<le> 100"
  shows "stored_interaction (complete_all pg td rs b) (appName pg) ''scores'' =
           Some (Scores (lastn 100 (xs @ map (score_of (dateKey pg)) rs)))"
  using assms
proof (induction rs arbitrary: b xs)
  case Nil
  then show ?case by (simp add: lastn_short)
next
  case (Cons r rs)
  obtain s m where r: "r = (s, m)" by (cases r)
  define ys where "ys = lastn 100 (xs @ [score_of (dateKey pg) (s, m)])"
  have p: "prior_list (stored_interaction b (appName pg) ''scores'') = Some xs"
    using Cons.prems(2) by (simp add: prior_list_def)
  have st: "stored_interaction (onbComplete pg td (Some s) m b) (appName pg) ''scores'' =
              Some (Scores ys)"
    unfolding ys_def by (rule scores_step [OF Cons.prems(1) p])
  have q: "\<not> local_quota_exceeded (onbComplete pg td (Some s) m b)"
    using Cons.prems(1) by simp
  have "stored_interaction (complete_all pg td rs (onbComplete pg td (Some s) m b)) (appName pg)
          ''scores'' = Some (Scores (lastn 100 (ys @ map (score_of (dateKey pg)) rs)))"
    by (rule Cons.IH [OF q st]) (simp add: ys_def lastn_length)
  also have "lastn 100 (ys @ map (score_of (dateKey pg)) rs) =
               lastn 100 (xs @ map (score_of (dateKey pg)) (r # rs))"
    unfolding ys_def lastn_lastn_append by (simp add: r)
  finally show ?case by (simp add: r)
qed

text \<open>
  C6. When the store takes the writes and the stored value of \<open>scores\<close> is a list, absent
  or falsy, then after one or more completions with a score the stored list holds the last
  100 of the old records followed by the new ones, in the order of insertion; it has at most
  100 entries.
\<close>

theorem scores_keep_last_100:
  assumes "\<not> local_quota_exceeded b"
    and "prior_list (stored_interaction b (appName pg) ''scores'') = Some xs"
    and "rs \<noteq> []"
  shows "stored_interaction (complete_all pg td rs b) (appName pg) ''scores'' =
           Some (Scores (lastn 100 (xs @ map (score_of (dateKey pg)) rs))) \<and>
         length (lastn 100 (xs @ map (score_of (dateKey pg)) rs)) \<le> 100"
proof -
  from assms(3) obtain s m rest where rs: "rs = (s, m) # rest"
    by (cases rs) auto
  define ys where "ys = lastn 100 (xs @ [score_of (dateKey pg) (s, m)])"
  have st: "stored_interaction (onbComplete pg td (Some s) m b) (appName pg) ''scores'' =
              Some (Scores ys)"
    unfolding ys_def by (rule scores_step [OF assms(1,2)])
  have q: "\<not> local_quota_exceeded (onbComplete pg td (Some s) m b)"
    using assms(1) by simp
  have "stored_interaction (complete_all pg td rest (onbComplete pg td (Some s) m b)) (appName pg)
          ''scores'' = Some (Scores (lastn 100 (ys @ map (score_of (dateKey pg)) rest)))"
    by (rule scores_sequence [OF q st]) (simp add: ys_def lastn_length)
  also have "lastn 100 (ys @ map (score_of (dateKey pg)) rest) =
               lastn 100 (xs @ map (score_of (dateKey pg)) rs)"
    unfolding ys_def lastn_lastn_append by (simp add: rs)
  finally show ?thesis by (simp add: rs lastn_length)
qed

theorem scores_keep_last_100_witness:
  "stored_interaction
     (complete_all quiz_page ''2024-05-01'' (map (\<lambda>n. (int n, Some 10)) [1..<106]) empty_browser)
     ''quiz'' ''scores'' =
   Some (Scores (map (\<lambda>n. \<lparr>score = int n, max_score = Some 10, date = ''2024-05-01''\<rparr>) [6..<106]))"
proof -
  have q: "\<not> local_quota_exceeded empty_browser"
    by (simp add: empty_browser_def)
  have a: "appName quiz_page = ''quiz''" and d: "dateKey quiz_page = ''2024-05-01''"
    by (simp_all add: quiz_page_def)
  have p: "prior_list (stored_interaction empty_browser (appName quiz_page) ''scores'') = Some []"
    by (simp add: prior_list_def stored_interaction_def stored_app_def loadData_def
        empty_browser_def empty_doc_def the_app_def)
  have n: "map (\<lambda>n. (int n, Some (10::int))) [1..<106] \<noteq> []"
    by (simp add: upt_rec)
  have l: "lastn 100 ([] @ map (score_of ''2024-05-01'') (map (\<lambda>n. (int n, Some 10)) [1..<106])) =
           map (\<lambda>n. \<lparr>score = int n, max_score = Some 10, date = ''2024-05-01''\<rparr>) [6..<106]"
    by (simp add: lastn_def drop_map score_of_def comp_def)
  from scores_keep_last_100 [OF q p n, of "''2024-05-01''"]
  show ?thesis unfolding a d l by simp
qed

lemma stored_interaction_onbTrack:
  assumes "\<not> local_quota_exceeded b"
  shows "stored_interaction (onbTrack pg td ev b) (appName pg) k =
           map_option (\<lambda>v. ival_json (ival_json v))
             (bump_interaction (stored_interaction b (appName pg)) ev k)"
  unfolding onbTrack_def Let_def stored_interaction_def [of "saveData _ _"]
    stored_app_cycle [OF assms]
  by (simp add: json_app_def repair_def interactions_entry_or_new option.map_comp comp_def)

lemma quota_onbTrack [simp]:
  "local_quota_exceeded (onbTrack pg td ev b) = local_quota_exceeded b"
  by (simp add: onbTrack_def Let_def)

text \<open>
  C7 as the code has it. When the store takes the write, a completion with a score makes
  \<open>scores\<close> a list holding the new record when the stored value is absent or falsy (0 or
  \<^verbatim>\<open>null\<close>), appends the record (keeping the last 100) when the stored value is a list,
  and leaves any other value, such as a counter that is not 0, as it is: the record is then
  not stored.
\<close>

theorem onbComplete_scores_shape:
  assumes "\<not> local_quota_exceeded b"
  shows "stored_interaction (onbComplete pg td (Some s) m b) (appName pg) ''scores'' =
           (case stored_interaction b (appName pg) ''scores'' of
              None \<Rightarrow> Some (Scores [score_of (dateKey pg) (s, m)])
            | Some (Scores xs) \<Rightarrow> Some (Scores (lastn 100 (xs @ [score_of (dateKey pg) (s, m)])))
            | Some (Count n) \<Rightarrow>
                if n = 0 then Some (Scores [score_of (dateKey pg) (s, m)]) else Some (Count n)
            | Some NaN \<Rightarrow> Some (Scores [score_of (dateKey pg) (s, m)])
            | Some Null \<Rightarrow> Some (Scores [score_of (dateKey pg) (s, m)]))"
proof (cases "prior_list (stored_interaction b (appName pg) ''scores'')")
  case None
  then obtain n where n: "stored_interaction b (appName pg) ''scores'' = Some (Count n)" "n \<noteq> 0"
    by (auto simp: prior_list_def split: if_splits option.splits ival.splits)
  from complete_scores_other [where i = "stored_interaction b (appName pg)", OF None] n
  show ?thesis by (simp add: stored_interaction_onbComplete [OF assms])
next
  case (Some xs)
  have l: "lastn 100 [r] = [r]" for r :: score_record by (simp add: lastn_def)
  from Some scores_step [OF assms Some] show ?thesis
    by (auto simp: prior_list_def l split: if_splits option.splits ival.splits)
qed

theorem onbComplete_scores_shape_witness:
  "stored_interaction (onbComplete quiz_page ''2024-05-01'' (Some 8) (Some 10) empty_browser)
     ''quiz'' ''scores'' =
     Some (Scores [\<lparr>score = 8, max_score = Some 10, date = ''2024-05-01''\<rparr>])"
proof -
  have q: "\<not> local_quota_exceeded empty_browser"
    by (simp add: empty_browser_def)
  have a: "appName quiz_page = ''quiz''" and d: "dateKey quiz_page = ''2024-05-01''"
    by (simp_all add: quiz_page_def)
  have p: "stored_interaction empty_browser ''quiz'' ''scores'' = None"
    by (simp add: stored_interaction_def stored_app_def loadData_def
        empty_browser_def empty_doc_def the_app_def)
  from onbComplete_scores_shape [OF q, of quiz_page "''2024-05-01''" 8 "Some 10"]
  show ?thesis unfolding a d p by (simp add: score_of_def)
qed

text \<open>
  C7 as the specification has it fails: after \<^verbatim>\<open>onbTrack('scores')\<close> the stored value is
  the counter 1, and a completion with a score leaves the counter and stores no record.
\<close>

theorem onbComplete_keeps_counter:
  "stored_interaction
     (onbComplete quiz_page ''2024-05-01'' (Some 8) (Some 10)
        (onbTrack quiz_page ''2024-05-01'' ''scores'' empty_browser))
     ''quiz'' ''scores'' = Some (Count 1)"
proof -
  have q: "\<not> local_quota_exceeded empty_browser"
    by (simp add: empty_browser_def)
  have a: "appName quiz_page = ''quiz''"
    by (simp add: quiz_page_def)
  have p: "stored_interaction empty_browser ''quiz'' = Map.empty"
    by (rule ext) (simp add: stored_interaction_def stored_app_def loadData_def
        empty_browser_def empty_doc_def the_app_def)
  have t: "stored_interaction (onbTrack quiz_page ''2024-05-01'' ''scores'' empty_browser)
             ''quiz'' ''scores'' = Some (Count 1)"
    using stored_interaction_onbTrack [OF q, of quiz_page "''2024-05-01''" "''scores''" "''scores''"]
    unfolding a p
    by (simp add: bump_interaction_def falsy_at_def proto_member_def proto_members_def)
  have q1: "\<not> local_quota_exceeded (onbTrack quiz_page ''2024-05-01'' ''scores'' empty_browser)"
    using q by simp
  have pl: "prior_list (stored_interaction
              (onbTrack quiz_page ''2024-05-01'' ''scores'' empty_browser) ''quiz'' ''scores'') = None"
    unfolding t by (simp add: prior_list_def)
  from complete_scores_other [where i = "stored_interaction
              (onbTrack quiz_page ''2024-05-01'' ''scores'' empty_browser) ''quiz''", OF pl]
    stored_interaction_onbComplete [OF q1, of quiz_page "''2024-05-01''" "Some 8" "Some 10" "''scores''"]
  show ?thesis unfolding a t by simp
qed

subsection \<open>Unique visitors\<close>

lemma set_set_add: "set (set_add xs v) = insert v (set xs)"
  by (auto simp: set_add_def)

lemma distinct_set_add: "distinct xs \<Longrightarrow> distinct (set_add xs v)"
  by (simp add: set_add_def)

lemma foldl_set_add:
  "distinct acc \<Longrightarrow>
   distinct (foldl set_add acc xs) \<and> set (foldl set_add acc xs) = set acc \<union> set xs"
  by (induction xs arbitrary: acc) (simp_all add: set_set_add distinct_set_add)

lemma distinct_new_Set: "distinct (new_Set xs)"
  using foldl_set_add [of "[]" xs] by (simp add: new_Set_def)


lemma foldl_set_add_distinct:
  "distinct (acc @ xs) \<Longrightarrow> foldl set_add acc xs = acc @ xs"
  by (induction xs arbitrary: acc) (simp_all add: set_add_def)

lemma new_Set_distinct: "distinct xs \<Longrightarrow> new_Set xs = xs"
  using foldl_set_add_distinct [of "[]" xs] by (simp add: new_Set_def)

lemma uniqueVisitors_json_app [simp]:
  "uniqueVisitors (json_app r a) = json_visitors r (uniqueVisitors a)"
  by (simp add: json_app_def)

lemma json_visitors_no_Set: "json_visitors False v \<noteq> SetV xs"
  by (cases v) (simp_all add: json_visitors_def)

lemma stored_app_no_Set:
  assumes "stored_app b app = Some a"
  shows "uniqueVisitors a \<noteq> SetV xs"
proof (cases "analytics_slot b")
  case None
  with assms show ?thesis
    by (simp add: stored_app_def loadData_def empty_doc_def the_app_def)
next
  case (Some t)
  show ?thesis
  proof (cases t)
    case Blank
    with Some assms show ?thesis
      by (simp add: stored_app_def loadData_def empty_doc_def the_app_def)
  next
    case Garbled
    with Some assms show ?thesis
      by (simp add: stored_app_def loadData_def empty_doc_def the_app_def)
  next
    case (Encodes d)
    with Some assms obtain z where "a = json_app False z"
      by (auto simp: stored_app_def loadData_def the_app_json_doc)
    then show ?thesis by (simp add: json_visitors_no_Set)
  qed
qed

lemma repaired_visitors:
  "uniqueVisitors (repair (entry_or_new td (stored_app b app))) =
     SetV (new_Set (stored_visitors b app))"
proof (cases "stored_app b app")
  case None
  then show ?thesis
    by (simp add: repair_def entry_or_new_def new_app_def stored_visitors_def new_Set_def)
next
  case (Some a)
  have n: "uniqueVisitors a \<noteq> SetV xs" for xs
    by (rule stored_app_no_Set [OF Some])
  show ?thesis
  proof (cases "uniqueVisitors a")
    case (Arr ys)
    with Some show ?thesis
      by (simp add: repair_def entry_or_new_def stored_visitors_def)
  next
    case (SetV ys)
    with n [of ys] show ?thesis by simp
  next
    case Malformed
    with Some show ?thesis
      by (simp add: repair_def entry_or_new_def stored_visitors_def new_Set_def)
  qed
qed

lemma the_app_global_update [simp]: "the_app (d\<lparr>global := g\<rparr>) app = the_app d app"
  by (simp add: the_app_def)

lemma stored_app_cycle_global:
  "\<not> local_quota_exceeded b \<Longrightarrow>
   stored_app (saveData (prepareForSave
       ((update_app app f (ensureApp td (loadData b) app))\<lparr>global := g\<rparr>)) b) app =
     Some (json_app False (json_app True (f (repair (entry_or_new td (stored_app b app))))))"
  by (simp add: stored_app_def loadData_saveData the_app_json_doc the_app_prepareForSave
      the_app_update_app the_app_ensureApp)

lemma recordPageview_throws:
  assumes "proto_member (appName pg)" and "stored_app b (appName pg) = None"
  shows "recordPageview pg td b = (Inl TypeError, b)"
  using assms by (simp add: recordPageview_def stored_app_def)

lemma recordPageview_passes:
  assumes "\<not> proto_member (appName pg) \<or> stored_app b (appName pg) \<noteq> None"
  shows "recordPageview pg td b =
           (Inr (),
            saveData (prepareForSave
              ((update_app (appName pg) (count_view pg (source_key pg))
                  (ensureApp td (loadData b) (appName pg)))
               \<lparr>global := Some (count_global pg
                  (global (update_app (appName pg) (count_view pg (source_key pg))
                     (ensureApp td (loadData b) (appName pg)))))\<rparr>)) b)"
  using assms by (auto simp: recordPageview_def stored_app_def Let_def)



lemma quota_recordPageview [simp]:
  "local_quota_exceeded (snd (recordPageview pg td b)) = local_quota_exceeded b"
  by (simp add: recordPageview_def Let_def)

lemma quota_record_pageviews [simp]:
  "local_quota_exceeded (record_pageviews ps b) = local_quota_exceeded b"
proof (induction ps arbitrary: b)
  case Nil
  show ?case by simp
next
  case (Cons p ps)
  obtain pg td where "p = (pg, td)" by (cases p)
  with Cons show ?case by simp
qed






text \<open>
  The case left out above: on a page \<^verbatim>\<open>/constructor/\<close> and an empty store the
  pageview block throws a \<^verbatim>\<open>TypeError\<close>, the script ends without its public functions, and
  no document is stored.
\<close>

lemma pageview_throws_at_inherited_name:
  "getAppName (pathname constructor_env) = ''constructor'' \<and>
   fst (load_script constructor_env empty_browser) = Inl TypeError \<and>
   analytics_slot (snd (load_script constructor_env empty_browser)) = None"
proof -
  have a: "getAppName (pathname constructor_env) = ''constructor''"
    by (simp add: constructor_env_def admin_env_def getAppName_def strip_slashes_def)
  have p: "proto_member ''constructor''"
    by (simp add: proto_member_def proto_members_def)
  have l: "the_app (loadData b) ''constructor'' = None" if "analytics_slot b = None" for b
    using that by (simp add: loadData_def empty_doc_def the_app_def)
  have "load_script constructor_env empty_browser =
          (Inl TypeError,
           snd (getSession (now constructor_env) (rand_session constructor_env)
                 (snd (getVisitorId (rand_visitor constructor_env) empty_browser))))"
    using a p
    by (simp add: load_script_def Let_def getVisitorId_def getSession_def parse_session_def
        empty_browser_def recordPageview_def l)
  then show ?thesis
    using a by (simp add: getVisitorId_def getSession_def parse_session_def Let_def
        empty_browser_def)
qed

subsection \<open>Serialising twice\<close>

lemma ival_json_idem [simp]: "ival_json (ival_json v) = ival_json v"
  by (cases v) simp_all

lemma map_ival_json_idem [simp]:
  "map_option ival_json (map_option ival_json x) = map_option ival_json x"
  by (cases x) simp_all

lemma json_visitors_TFT:
  "json_visitors True (json_visitors False (json_visitors True v)) = json_visitors True v"
  by (cases v) (simp_all add: json_visitors_def)

lemma json_app_TFT: "json_app True (json_app False (json_app True a)) = json_app True a"
  by (simp add: json_app_def json_visitors_TFT)

lemma json_app_repaired:
  assumes "uniqueVisitors a = SetV xs"
  shows "json_app True ((json_app False (json_app True a))\<lparr>uniqueVisitors := SetV xs\<rparr>) =
           json_app True a"
  using assms by (simp add: json_app_def json_visitors_def)

lemma json_doc_TFT: "json_doc True (json_doc False (json_doc True d)) = json_doc True d"
proof (cases "apps d")
  case None
  then show ?thesis by (simp add: json_doc_def)
next
  case (Some m)
  have "(\<lambda>k. map_option (json_app True) (map_option (json_app False) (map_option (json_app True) (m k)))) =
        (\<lambda>k. map_option (json_app True) (m k))"
    by (rule ext) (simp add: option.map_comp comp_def json_app_TFT)
  with Some show ?thesis by (simp add: json_doc_def)
qed

lemma parse_plain: "apps d = None \<Longrightarrow> json_doc r d = d"
  by (simp add: json_doc_def)

lemma reserialise_plain:
  "prepareForSave (json_doc False (prepareForSave d)) = prepareForSave d"
proof (cases "apps d")
  case None
  then show ?thesis by (simp add: prepareForSave_def parse_plain)
next
  case (Some m)
  then have 1: "prepareForSave d = json_doc True d"
    by (simp add: prepareForSave_def)
  have 2: "prepareForSave (json_doc False (json_doc True d)) =
             json_doc True (json_doc False (json_doc True d))"
    using Some by (simp add: prepareForSave_def json_doc_def)
  show ?thesis unfolding 1 2 by (rule json_doc_TFT)
qed

lemma reserialise_repaired:
  assumes "in_memory app d"
  shows "prepareForSave (ensureApp td (json_doc False (prepareForSave d)) app) = prepareForSave d"
proof -
  from assms obtain m a xs where m: "apps d = Some m" and a: "m app = Some a"
    and u: "uniqueVisitors a = SetV xs" and dx: "distinct xs"
    by (auto simp: in_memory_def the_app_def split: option.splits visitors.splits)
  define m1 where "m1 = (\<lambda>k. map_option (json_app False) (map_option (json_app True) (m k)))"
  have p: "json_doc False (prepareForSave d) = d\<lparr>apps := Some m1\<rparr>"
    using m by (simp add: prepareForSave_def json_doc_def m1_def)
  have m1a: "m1 app = Some (json_app False (json_app True a))"
    using a by (simp add: m1_def)
  have uv: "uniqueVisitors (json_app False (json_app True a)) = Arr xs"
    using u by (simp add: json_app_def json_visitors_def)
  have e: "ensureApp td (d\<lparr>apps := Some m1\<rparr>) app =
             d\<lparr>apps := Some (m1(app \<mapsto> (json_app False (json_app True a))\<lparr>uniqueVisitors := SetV xs\<rparr>))\<rparr>"
    using m1a uv by (simp add: ensureApp_def Let_def new_Set_distinct [OF dx])
  have f: "(\<lambda>k. map_option (json_app True)
              ((m1(app \<mapsto> (json_app False (json_app True a))\<lparr>uniqueVisitors := SetV xs\<rparr>)) k)) =
           (\<lambda>k. map_option (json_app True) (m k))"
  proof (rule ext)
    fix k
    show "map_option (json_app True)
              ((m1(app \<mapsto> (json_app False (json_app True a))\<lparr>uniqueVisitors := SetV xs\<rparr>)) k) =
           map_option (json_app True) (m k)"
    proof (cases "k = app")
      case True
      with a show ?thesis by (simp add: json_app_repaired [OF u])
    next
      case False
      then show ?thesis by (simp add: m1_def option.map_comp comp_def json_app_TFT)
    qed
  qed
  show ?thesis
    unfolding p e using m f by (simp add: prepareForSave_def json_doc_def)
qed

lemma in_memory_ensureApp: "in_memory app (ensureApp td (loadData b) app)"
  by (simp add: in_memory_def the_app_ensureApp repaired_visitors [unfolded stored_app_def]
      distinct_new_Set)

text \<open>
  C2. Serialising a document, parsing the text and serialising again gives the first
  serialisation. The same holds when the parsed document goes through the repair of
  \<^verbatim>\<open>ensureApp\<close> before it is serialised again, for a document as the script holds it in
  memory (the entry of the app is there with a \<^verbatim>\<open>Set\<close> of visitors); the second save then
  leaves the store as the first save left it.
\<close>

theorem serialize_roundtrip_idempotent:
  "prepareForSave (loadData (saveData (prepareForSave d) (b\<lparr>local_quota_exceeded := False\<rparr>))) =
     prepareForSave d \<and>
   (in_memory app d \<and> \<not> local_quota_exceeded b \<longrightarrow>
      prepareForSave (ensureApp td (loadData (saveData (prepareForSave d) b)) app) =
        prepareForSave d \<and>
      saveData (prepareForSave (ensureApp td (loadData (saveData (prepareForSave d) b)) app))
        (saveData (prepareForSave d) b) = saveData (prepareForSave d) b)"
proof -
  have a: "prepareForSave (loadData (saveData (prepareForSave d) (b\<lparr>local_quota_exceeded := False\<rparr>))) =
     prepareForSave d"
    by (simp add: loadData_saveData reserialise_plain)
  have c: "prepareForSave (ensureApp td (loadData (saveData (prepareForSave d) b)) app) =
        prepareForSave d \<and>
      saveData (prepareForSave (ensureApp td (loadData (saveData (prepareForSave d) b)) app))
        (saveData (prepareForSave d) b) = saveData (prepareForSave d) b"
    if h: "in_memory app d" "\<not> local_quota_exceeded b"
  proof -
    have e: "prepareForSave (ensureApp td (loadData (saveData (prepareForSave d) b)) app) =
        prepareForSave d"
      by (simp add: loadData_saveData [OF h(2)] reserialise_repaired [OF h(1)])
    show ?thesis unfolding e using h(2) by (simp add: saveData_def)
  qed
  from a c show ?thesis by blast
qed

theorem serialize_roundtrip_idempotent_witness:
  "in_memory ''quiz'' (ensureApp ''2024-05-02'' (loadData quiz_browser) ''quiz'') \<and>
   \<not> local_quota_exceeded quiz_browser \<and>
   prepareForSave (ensureApp ''2024-05-03''
       (loadData (saveData (prepareForSave (ensureApp ''2024-05-02'' (loadData quiz_browser) ''quiz''))
          quiz_browser)) ''quiz'') =
     prepareForSave (ensureApp ''2024-05-02'' (loadData quiz_browser) ''quiz'')"
proof -
  have i: "in_memory ''quiz'' (ensureApp ''2024-05-02'' (loadData quiz_browser) ''quiz'')"
    by (rule in_memory_ensureApp)
  have q: "\<not> local_quota_exceeded quiz_browser"
    by (simp add: quiz_browser_def empty_browser_def)
  from i q serialize_roundtrip_idempotent
    [of "ensureApp ''2024-05-02'' (loadData quiz_browser) ''quiz''" quiz_browser "''quiz''"
        "''2024-05-03''"]
  show ?thesis by blast
qed

subsection \<open>The view counter is never negative\<close>

lemma the_app_ensureApp_other:
  "app' \<noteq> app \<Longrightarrow> the_app (ensureApp td d app) app' = the_app d app'"
  by (simp add: the_app_def ensureApp_def Let_def split: option.splits)

lemma the_app_update_app_other:
  "app' \<noteq> app \<Longrightarrow> the_app (update_app app f d) app' = the_app d app'"
  by (simp add: the_app_def update_app_def split: option.splits)

lemma stored_app_cycle_other:
  assumes "\<not> local_quota_exceeded b" and "app' \<noteq> app"
  shows "stored_app (saveData (prepareForSave
           ((update_app app f (ensureApp td (loadData b) app))\<lparr>global := g\<rparr>)) b) app' =
         map_option (\<lambda>a. json_app False (json_app True a)) (stored_app b app')"
  using assms
  by (simp add: stored_app_def loadData_saveData the_app_json_doc the_app_prepareForSave
      the_app_update_app_other the_app_ensureApp_other option.map_comp comp_def)

lemma global_same: "d\<lparr>global := global d\<rparr> = d"
  by simp

lemma views_ok_cycle:
  assumes "views_ok b"
    and "\<And>a. 0 \<le> totalViews a \<Longrightarrow> 0 \<le> totalViews (f a)"
  shows "views_ok (saveData (prepareForSave
           ((update_app app f (ensureApp td (loadData b) app))\<lparr>global := g\<rparr>)) b)"
proof (cases "local_quota_exceeded b")
  case True
  with assms(1) show ?thesis by (simp add: saveData_def)
next
  case False
  show ?thesis
    unfolding views_ok_def
  proof (intro allI impI)
    fix app' a
    assume s: "stored_app (saveData (prepareForSave
           ((update_app app f (ensureApp td (loadData b) app))\<lparr>global := g\<rparr>)) b) app' = Some a"
    show "0 \<le> totalViews a"
    proof (cases "app' = app")
      case True
      have "0 \<le> totalViews (entry_or_new td (stored_app b app))"
        using assms(1) by (auto simp: views_ok_def entry_or_new_def new_app_def split: option.splits)
      then have "0 \<le> totalViews (f (repair (entry_or_new td (stored_app b app))))"
        by (intro assms(2)) (simp add: repair_def)
      with s True show ?thesis
        by (auto simp: stored_app_cycle_global [OF False] json_app_def)
    next
      case other: False
      from s obtain z where "stored_app b app' = Some z" and "a = json_app False (json_app True z)"
        by (auto simp: stored_app_cycle_other [OF False other])
      with assms(1) show ?thesis by (auto simp: views_ok_def json_app_def)
    qed
  qed
qed

lemma views_ok_cycle_plain:
  assumes "views_ok b"
    and "\<And>a. 0 \<le> totalViews a \<Longrightarrow> 0 \<le> totalViews (f a)"
  shows "views_ok (saveData (prepareForSave (update_app app f (ensureApp td (loadData b) app))) b)"
  using views_ok_cycle
    [where g = "global (update_app app f (ensureApp td (loadData b) app))" and f = f
      and b = b and app = app and td = td, OF assms]
  by simp

lemma views_ok_empty: "views_ok empty_browser"
  by (simp add: views_ok_def stored_app_def loadData_def empty_browser_def empty_doc_def
      the_app_def)

lemma views_ok_recordPageview:
  assumes "views_ok b"
  shows "views_ok (snd (recordPageview pg td b))"
proof (cases "proto_member (appName pg) \<and> stored_app b (appName pg) = None")
  case True
  then have "recordPageview pg td b = (Inl TypeError, b)"
    by (simp add: recordPageview_throws)
  with assms show ?thesis by simp
next
  case False
  then have h: "\<not> proto_member (appName pg) \<or> stored_app b (appName pg) \<noteq> None"
    by simp
  show ?thesis
    unfolding recordPageview_passes [OF h] snd_conv
    by (rule views_ok_cycle [OF assms]) (simp add: count_view_def)
qed

lemma views_ok_onbTrack: "views_ok b \<Longrightarrow> views_ok (onbTrack pg td ev b)"
  unfolding onbTrack_def Let_def
  by (rule views_ok_cycle_plain) simp_all

lemma views_ok_onbAffiliateClick: "views_ok b \<Longrightarrow> views_ok (onbAffiliateClick pg td p b)"
  unfolding onbAffiliateClick_def Let_def
  by (rule views_ok_cycle_plain) simp_all

lemma views_ok_onbShare: "views_ok b \<Longrightarrow> views_ok (onbShare pg td p b)"
  unfolding onbShare_def Let_def
  by (rule views_ok_cycle_plain) simp_all

lemma views_ok_onbComplete: "views_ok b \<Longrightarrow> views_ok (onbComplete pg td sc m b)"
  unfolding onbComplete_def Let_def
  by (rule views_ok_cycle_plain) simp_all

lemma views_ok_recordTimeOnPage:
  assumes "views_ok b"
  shows "views_ok (recordTimeOnPage pg nw td b)"
proof (cases "timeSpent pg nw < 1 \<or> timeSpent pg nw > 3600")
  case True
  with assms show ?thesis by (simp add: recordTimeOnPage_def)
next
  case False
  have "views_ok (saveData (prepareForSave (update_app (appName pg) (add_time (timeSpent pg nw))
          (ensureApp td (loadData b) (appName pg)))) b)"
    by (rule views_ok_cycle_plain [OF assms]) (simp add: add_time_def Let_def)
  with False show ?thesis by (simp add: recordTimeOnPage_def Let_def)
qed

lemma views_ok_entry:
  "views_ok b \<Longrightarrow> 0 \<le> totalViews (entry_or_new td (stored_app b app))"
  by (auto simp: views_ok_def entry_or_new_def new_app_def split: option.splits)

subsection \<open>Inherited names and the public functions\<close>

text \<open>
  On a store without entries under inherited names, as the script leaves it, the body of
  the script installs its public functions only on a page whose app has no inherited name.
  For such a page \<^verbatim>\<open>data.apps[app]\<close> is the lookup of the own property, and the calls
  keep the store free of entries under inherited names.
\<close>

lemma own_names_ok_cycle:
  assumes "own_names_ok b" and "\<not> proto_member app"
  shows "own_names_ok (saveData (prepareForSave
           ((update_app app f (ensureApp td (loadData b) app))\<lparr>global := g\<rparr>)) b)"
proof (cases "local_quota_exceeded b")
  case True
  with assms(1) show ?thesis by (simp add: saveData_def)
next
  case False
  show ?thesis
    unfolding own_names_ok_def
  proof (intro allI impI)
    fix app'
    assume p: "proto_member app'"
    with assms(2) have ne: "app' \<noteq> app" by auto
    from assms(1) p have "stored_app b app' = None" by (simp add: own_names_ok_def)
    then show "stored_app (saveData (prepareForSave
           ((update_app app f (ensureApp td (loadData b) app))\<lparr>global := g\<rparr>)) b) app' = None"
      by (simp add: stored_app_cycle_other [OF False ne])
  qed
qed

lemma own_names_ok_cycle_plain:
  assumes "own_names_ok b" and "\<not> proto_member app"
  shows "own_names_ok (saveData (prepareForSave (update_app app f (ensureApp td (loadData b) app))) b)"
  using own_names_ok_cycle
    [where g = "global (update_app app f (ensureApp td (loadData b) app))" and f = f
      and b = b and app = app and td = td, OF assms]
  by simp

lemma own_names_ok_empty: "own_names_ok empty_browser"
  by (simp add: own_names_ok_def stored_app_def loadData_def empty_browser_def empty_doc_def
      the_app_def)

lemma own_names_ok_slots:
  "analytics_slot b' = analytics_slot b \<Longrightarrow> own_names_ok b' = own_names_ok b"
  by (simp add: own_names_ok_def stored_app_def loadData_def)

lemma own_names_ok_recordPageview:
  assumes "own_names_ok b"
  shows "own_names_ok (snd (recordPageview pg td b)) \<and>
         (fst (recordPageview pg td b) = Inr () \<longrightarrow> \<not> proto_member (appName pg))"
proof (cases "proto_member (appName pg)")
  case True
  with assms have "stored_app b (appName pg) = None" by (simp add: own_names_ok_def)
  with True have "recordPageview pg td b = (Inl TypeError, b)"
    by (simp add: recordPageview_throws)
  with assms show ?thesis by simp
next
  case False
  then have h: "\<not> proto_member (appName pg) \<or> stored_app b (appName pg) \<noteq> None"
    by simp
  have "own_names_ok (snd (recordPageview pg td b))"
    unfolding recordPageview_passes [OF h] snd_conv
    by (rule own_names_ok_cycle [OF assms False])
  with False show ?thesis by simp
qed

lemma own_names_ok_load_script:
  assumes "own_names_ok b" and "load_script env b = (Inr (Some pg), b')"
  shows "\<not> proto_member (appName pg) \<and> own_names_ok b'"
proof -
  obtain r1 b1 where v: "getVisitorId (rand_visitor env) b = (r1, b1)"
    by (cases "getVisitorId (rand_visitor env) b")
  have o1: "own_names_ok b1"
    using analytics_getVisitorId [of "rand_visitor env" b] v assms(1)
    by (simp add: own_names_ok_slots [of b1 b])
  from assms(2) v obtain vid where r1: "r1 = Inr vid"
    by (cases r1) (simp_all add: load_script_def)
  obtain r2 b2 where s: "getSession (now env) (rand_session env) b1 = (r2, b2)"
    by (cases "getSession (now env) (rand_session env) b1")
  have o2: "own_names_ok b2"
    using analytics_getSession [of "now env" "rand_session env" b1] s o1
    by (simp add: own_names_ok_slots [of b2 b1])
  from assms(2) v r1 s obtain sess where r2: "r2 = Inr sess"
    by (cases r2) (simp_all add: load_script_def)
  define pg0 where "pg0 = \<lparr>visitorId = vid, page_session = sess,
                          appName = getAppName (pathname env), dateKey = today env,
                          page_utm = getUtmParams env,
                          refCategory = getReferrerCategory (referrer env),
                          pageLoadTime = load_time env\<rparr>"
  from assms(2) v r1 s r2
  have na: "appName pg0 \<noteq> ''admin''"
    by (auto simp: load_script_def Let_def pg0_def split: if_splits)
  obtain r3 b3 where p: "recordPageview pg0 (today env) b2 = (r3, b3)"
    by (cases "recordPageview pg0 (today env) b2")
  from assms(2) v r1 s r2 na p
  have e: "r3 = Inr () \<and> pg = pg0 \<and> b' = b3"
    by (cases r3) (auto simp: load_script_def Let_def pg0_def)
  from own_names_ok_recordPageview [OF o2, of pg0 "today env"] p e
  show ?thesis by simp
qed

lemma own_names_ok_onbTrack:
  "own_names_ok b \<Longrightarrow> \<not> proto_member (appName pg) \<Longrightarrow> own_names_ok (onbTrack pg td ev b)"
  unfolding onbTrack_def Let_def by (rule own_names_ok_cycle_plain)

lemma own_names_ok_onbAffiliateClick:
  "own_names_ok b \<Longrightarrow> \<not> proto_member (appName pg) \<Longrightarrow>
   own_names_ok (onbAffiliateClick pg td p b)"
  unfolding onbAffiliateClick_def Let_def by (rule own_names_ok_cycle_plain)

lemma own_names_ok_onbShare:
  "own_names_ok b \<Longrightarrow> \<not> proto_member (appName pg) \<Longrightarrow> own_names_ok (onbShare pg td p b)"
  unfolding onbShare_def Let_def by (rule own_names_ok_cycle_plain)

lemma own_names_ok_onbComplete:
  "own_names_ok b \<Longrightarrow> \<not> proto_member (appName pg) \<Longrightarrow>
   own_names_ok (onbComplete pg td sc m b)"
  unfolding onbComplete_def Let_def by (rule own_names_ok_cycle_plain)

lemma own_names_ok_recordTimeOnPage:
  assumes "own_names_ok b" and "\<not> proto_member (appName pg)"
  shows "own_names_ok (recordTimeOnPage pg nw td b)"
proof (cases "timeSpent pg nw < 1 \<or> timeSpent pg nw > 3600")
  case True
  with assms(1) show ?thesis by (simp add: recordTimeOnPage_def)
next
  case False
  have "own_names_ok (saveData (prepareForSave (update_app (appName pg)
          (add_time (timeSpent pg nw)) (ensureApp td (loadData b) (appName pg)))) b)"
    by (rule own_names_ok_cycle_plain [OF assms])
  with False show ?thesis by (simp add: recordTimeOnPage_def Let_def)
qed

end
